theory Spec2Isabelle
  imports Complex_Main
begin

section \<open>The playlist store (PlaylistStore.js)\<close>

text \<open>
  The store keeps two module variables, \<open>_playlistItems\<close> and \<open>_playlistCurrent\<close>,
  each written through to localStorage by its setter and read back by its getter.
  The state of the model is the pair of values that \<open>getPlaylistItems()\<close> and
  \<open>getPlaylistCurrent()\<close> return.

  A Key of a Path is a string (a group's \<open>Key\<close>) or a number (a track's
  index); \<open>undefined\<close> appears where the code reads past the end of an array
  (\<open>tracks[i]\<close>, \<open>path.pop()\<close> on an empty array).
\<close>

datatype key = KStr string | KNum nat | KUndefined

type_synonym path = "key list"

datatype node_type = TYPE_GROUP | TYPE_TRACKS

text \<open>
  The object \<open>x\<close> that \<open>buildPlaylistItem\<close> stores per visited path:
  \<open>{type, keys}\<close>, or \<open>{}\<close> (both fields undefined).
\<close>

record node =
  type_of :: "node_type option"
  keys :: "key list option"

text \<open>
  A playlist item \<open>{root, paths, data, tracks}\<close>. \<open>data\<close> is an object used as a
  dictionary; its property names are the results of \<open>CollectionStore.pathToKey\<close>,
  a function of another module, which the model takes as a parameter of type
  \<open>path \<Rightarrow> 'k\<close>.
\<close>

record 'k playlistItem =
  root :: path
  paths :: "path list"
  data :: "'k \<rightharpoonup> node"
  tracks :: "path list"

text \<open>
  The current position \<open>{item, track, path}\<close>. \<open>track\<close> is an integer:
  \<open>setCurrent\<close> stores \<open>-1\<close>. \<open>path\<close> is undefined (\<open>None\<close>) when \<open>reset\<close>
  reads \<open>items[0].tracks[0]\<close> of an item without tracks.
\<close>

record current =
  item :: int
  track :: int
  path :: "path option"

record 'k store =
  playlistItems :: "'k playlistItem list"
  playlistCurrent :: "current option"

datatype js_error = TypeError

text \<open>\<open>xs[i]\<close> for an integer \<open>i\<close>: \<open>undefined\<close> outside \<open>0 .. length - 1\<close>.\<close>

definition js_index :: "'a list \<Rightarrow> int \<Rightarrow> 'a option" where
  "js_index xs i = (if 0 \<le> i \<and> i < int (length xs) then Some (xs ! nat i) else None)"

text \<open>
  \<open>a.concat(x)\<close> where \<open>x\<close> is a path (an array, whose elements are appended) or
  \<open>undefined\<close> (appended as one element).
\<close>

definition js_concat :: "path \<Rightarrow> path option \<Rightarrow> path" where
  "js_concat a x = (case x of Some p \<Rightarrow> a @ p | None \<Rightarrow> a @ [KUndefined])"

definition getPlaylistItem :: "'k store \<Rightarrow> int \<Rightarrow> 'k playlistItem option" where
  "getPlaylistItem st itemIndex = js_index (playlistItems st) itemIndex"

definition setPlaylistCurrent :: "current option \<Rightarrow> 'k store \<Rightarrow> 'k store" where
  "setPlaylistCurrent c st = st\<lparr>playlistCurrent := c\<rparr>"

definition setPlaylistItems :: "'k playlistItem list \<Rightarrow> 'k store \<Rightarrow> 'k store" where
  "setPlaylistItems its st = st\<lparr>playlistItems := its\<rparr>"

definition reset :: "'k store \<Rightarrow> 'k store" where
  "reset st =
     (let its = playlistItems st in
      setPlaylistCurrent
        (if length its > 0
         then Some \<lparr>item = 0, track = 0, path = js_index (tracks (its ! 0)) 0\<rparr>
         else None) st)"

text \<open>
  \<open>next()\<close>. \<open>items[current.item]\<close> is undefined when the index is out of range,
  and reading \<open>item.tracks\<close> then throws a TypeError before anything is changed.
\<close>

definition "next" :: "'k store \<Rightarrow> js_error + 'k store" where
  "next st =
     (case playlistCurrent st of
        None \<Rightarrow> Inr (reset st)
      | Some cur \<Rightarrow>
          (let its = playlistItems st in
           case js_index its (item cur) of
             None \<Rightarrow> Inl TypeError
           | Some it \<Rightarrow>
               if track cur + 1 < int (length (tracks it))
               then Inr (setPlaylistCurrent
                      (Some (cur\<lparr>track := track cur + 1,
                                 path := Some (js_concat (root it)
                                           (js_index (tracks it) (track cur + 1)))\<rparr>)) st)
               else if item cur + 1 < int (length its)
               then (let it' = its ! nat (item cur + 1) in
                     Inr (setPlaylistCurrent
                       (Some (cur\<lparr>item := item cur + 1, track := 0,
                                  path := Some (js_concat (root it')
                                            (js_index (tracks it') 0))\<rparr>)) st))
               else Inr (setPlaylistCurrent None st)))"

text \<open>
  \<open>prev()\<close>. In the second branch \<open>current.item > 0\<close> and \<open>items[current.item]\<close> is
  defined, so \<open>items[current.item - 1]\<close> is defined too.
\<close>

definition prev :: "'k store \<Rightarrow> js_error + 'k store" where
  "prev st =
     (case playlistCurrent st of
        None \<Rightarrow> Inr (reset st)
      | Some cur \<Rightarrow>
          (case getPlaylistItem st (item cur) of
             None \<Rightarrow> Inl TypeError
           | Some it \<Rightarrow>
               if track cur > 0
               then Inr (setPlaylistCurrent
                      (Some (cur\<lparr>track := track cur - 1,
                                 path := Some (js_concat (root it)
                                           (js_index (tracks it) (track cur - 1)))\<rparr>)) st)
               else if item cur > 0
               then (case getPlaylistItem st (item cur - 1) of
                       None \<Rightarrow> Inl TypeError
                     | Some it' \<Rightarrow>
                         (let t = int (length (tracks it')) - 1 in
                          Inr (setPlaylistCurrent
                            (Some (cur\<lparr>item := item cur - 1, track := t,
                                       path := Some (js_concat (root it')
                                                 (js_index (tracks it') t))\<rparr>)) st)))
               else Inr st))"

definition canPrev :: "'k store \<Rightarrow> bool" where
  "canPrev st =
     (case playlistCurrent st of
        None \<Rightarrow> False
      | Some cur \<Rightarrow> track cur > 0 \<or> item cur > 0)"

definition canNext :: "'k store \<Rightarrow> js_error + bool" where
  "canNext st =
     (case playlistCurrent st of
        None \<Rightarrow> Inr False
      | Some cur \<Rightarrow>
          (let its = playlistItems st in
           case js_index its (item cur) of
             None \<Rightarrow> Inl TypeError
           | Some it \<Rightarrow>
               Inr (track cur < int (length (tracks it)) - 1
                    \<or> item cur < int (length its) - 1)))"

subsection \<open>remove\<close>

text \<open>
  \<open>a != b\<close> on two Keys. Two strings or two numbers compare by value; a string and a
  number compare after the string is converted by JavaScript's ToNumber, which the
  model takes as the parameter \<open>toNumber\<close> (the natural number the string denotes,
  \<open>None\<close> when it denotes none); \<open>undefined\<close> is loosely equal to itself only.
\<close>

fun js_ne :: "(string \<Rightarrow> nat option) \<Rightarrow> key \<Rightarrow> key \<Rightarrow> bool" where
  "js_ne toNumber (KStr a) (KStr b) = (a \<noteq> b)"
| "js_ne toNumber (KNum a) (KNum b) = (a \<noteq> b)"
| "js_ne toNumber (KStr a) (KNum b) = (toNumber a \<noteq> Some b)"
| "js_ne toNumber (KNum a) (KStr b) = (toNumber b \<noteq> Some a)"
| "js_ne toNumber KUndefined KUndefined = False"
| "js_ne toNumber KUndefined b = True"
| "js_ne toNumber a KUndefined = True"

text \<open>The \<open>for\<close> loop of \<open>_isPathPrefix(path, prefix)\<close>, from index \<open>i\<close>.\<close>

function isPathPrefix_from ::
  "(string \<Rightarrow> nat option) \<Rightarrow> path \<Rightarrow> path \<Rightarrow> nat \<Rightarrow> bool" where
  "isPathPrefix_from toNumber p pre i =
     (if i < length pre
      then (if js_ne toNumber (p ! i) (pre ! i) then False
            else isPathPrefix_from toNumber p pre (Suc i))
      else True)"
  by pat_completeness auto
termination
  by (relation "measure (\<lambda>(toNumber, p, pre, i). length pre - i)") auto

declare isPathPrefix_from.simps [simp del]

definition isPathPrefix :: "(string \<Rightarrow> nat option) \<Rightarrow> path \<Rightarrow> path \<Rightarrow> bool" where
  "isPathPrefix toNumber p pre =
     (if length pre > length p then False else isPathPrefix_from toNumber p pre 0)"

definition pathsEqual :: "(string \<Rightarrow> nat option) \<Rightarrow> path \<Rightarrow> path \<Rightarrow> bool" where
  "pathsEqual toNumber p1 p2 = (length p1 = length p2 \<and> isPathPrefix toNumber p1 p2)"

text \<open>
  \<open>xs.splice(start, 1)\<close>, as the array it leaves: a negative start counts from the
  end, so \<open>splice(-1, 1)\<close> removes the last element.
\<close>

definition js_splice1 :: "int \<Rightarrow> 'a list \<Rightarrow> 'a list" where
  "js_splice1 start xs =
     (let len = int (length xs);
          s = nat (if start < 0 then max (len + start) 0 else min start len)
      in take s xs @ drop (Suc s) xs)"

text \<open>\<open>ks.indexOf(k)\<close>: the first index holding \<open>k\<close> (strict equality), or \<open>-1\<close>.\<close>

fun indexOf_from :: "key list \<Rightarrow> key \<Rightarrow> int \<Rightarrow> int" where
  "indexOf_from [] k i = - 1"
| "indexOf_from (x # xs) k i = (if x = k then i else indexOf_from xs k (i + 1))"

definition indexOf :: "key list \<Rightarrow> key \<Rightarrow> int" where
  "indexOf ks k = indexOf_from ks k 0"

text \<open>\<open>path.pop()\<close>: the removed last element (undefined on an empty array) and the rest.\<close>

definition js_pop :: "path \<Rightarrow> key \<times> path" where
  "js_pop p = (if p = [] then (KUndefined, []) else (last p, butlast p))"

text \<open>The \<open>while\<close> loop of \<open>_removeTracks(tracks, path)\<close>, from index \<open>i\<close>.\<close>

function removeTracks_from ::
  "(string \<Rightarrow> nat option) \<Rightarrow> nat \<Rightarrow> path list \<Rightarrow> path \<Rightarrow> path list" where
  "removeTracks_from toNumber i trks p =
     (if i < length trks
      then (if isPathPrefix toNumber (trks ! i) p
            then removeTracks_from toNumber i (js_splice1 (int i) trks) p
            else removeTracks_from toNumber (Suc i) trks p)
      else trks)"
  by pat_completeness auto
termination
  by (relation "measure (\<lambda>(toNumber, i, trks, p). length trks - i)")
     (auto simp: js_splice1_def)

declare removeTracks_from.simps [simp del]

definition removeTracks :: "(string \<Rightarrow> nat option) \<Rightarrow> path list \<Rightarrow> path \<Rightarrow> path list" where
  "removeTracks toNumber trks p = removeTracks_from toNumber 0 trks p"

text \<open>
  The \<open>while\<close> loop of \<open>_removePaths(paths, data, path)\<close>, from index \<open>i\<close>; it returns
  the array and the dictionary it leaves.
\<close>

function removePaths_from ::
  "(path \<Rightarrow> 'k) \<Rightarrow> (string \<Rightarrow> nat option) \<Rightarrow> nat \<Rightarrow> path list \<Rightarrow> ('k \<rightharpoonup> node) \<Rightarrow> path
     \<Rightarrow> path list \<times> ('k \<rightharpoonup> node)" where
  "removePaths_from pathToKey toNumber i ps d p =
     (if i < length ps
      then (if isPathPrefix toNumber (ps ! i) p
            then removePaths_from pathToKey toNumber i (js_splice1 (int i) ps)
                   (d(pathToKey (ps ! i) := None)) p
            else removePaths_from pathToKey toNumber (Suc i) ps d p)
      else (ps, d))"
  by pat_completeness auto
termination
  by (relation "measure (\<lambda>(pathToKey, toNumber, i, ps, d, p). length ps - i)")
     (auto simp: js_splice1_def)

declare removePaths_from.simps [simp del]

definition removePaths ::
  "(path \<Rightarrow> 'k) \<Rightarrow> (string \<Rightarrow> nat option) \<Rightarrow> path list \<Rightarrow> ('k \<rightharpoonup> node) \<Rightarrow> path
     \<Rightarrow> path list \<times> ('k \<rightharpoonup> node)" where
  "removePaths pathToKey toNumber ps d p = removePaths_from pathToKey toNumber 0 ps d p"

definition removeItem :: "'a list \<Rightarrow> int \<Rightarrow> 'a list" where
  "removeItem its itemIndex = js_splice1 itemIndex its"

text \<open>
  The \<open>do ... while\<close> loop of \<open>remove\<close>, on the item object \<open>items[itemIndex]\<close> that
  the loop mutates in place. The result is \<open>None\<close> when the loop ends by
  \<open>_removeItem(items, itemIndex)\<close>, and the mutated item otherwise.
\<close>

function remove_loop ::
  "(path \<Rightarrow> 'k) \<Rightarrow> (string \<Rightarrow> nat option) \<Rightarrow> 'k playlistItem \<Rightarrow> path
     \<Rightarrow> 'k playlistItem option" where
  "remove_loop pathToKey toNumber it p =
     (if pathsEqual toNumber p (root it) then None
      else
        (let trks = removeTracks toNumber (tracks it) p;
             psd = removePaths pathToKey toNumber (paths it) (data it) p;
             it2 = it\<lparr>paths := fst psd, data := snd psd, tracks := trks\<rparr>;
             lst = fst (js_pop p);
             p' = snd (js_pop p)
         in case data it2 (pathToKey p') of
              None \<Rightarrow> Some it2
            | Some nd \<Rightarrow>
                (case keys nd of
                   None \<Rightarrow> Some it2
                 | Some ks \<Rightarrow>
                     (let ks' = js_splice1 (indexOf ks lst) ks;
                          it3 = it2\<lparr>data := (data it2)(pathToKey p' \<mapsto> nd\<lparr>keys := Some ks'\<rparr>)\<rparr>
                      in if length ks' = 0 \<and> length p' > 1
                         then remove_loop pathToKey toNumber it3 p'
                         else Some it3))))"
  by pat_completeness auto
termination
  by (relation "measure (\<lambda>(pathToKey, toNumber, it, p). length p)")
     (auto simp: js_pop_def split: if_splits)

declare remove_loop.simps [simp del]

text \<open>
  \<open>remove(itemIndex, path)\<close>. When \<open>items[itemIndex]\<close> is undefined, reading
  \<open>item.root\<close> throws a TypeError and nothing is changed.
\<close>

definition remove ::
  "(path \<Rightarrow> 'k) \<Rightarrow> (string \<Rightarrow> nat option) \<Rightarrow> 'k store \<Rightarrow> int \<Rightarrow> path
     \<Rightarrow> js_error + 'k store" where
  "remove pathToKey toNumber st itemIndex p =
     (let its = playlistItems st in
      case js_index its itemIndex of
        None \<Rightarrow> Inl TypeError
      | Some it \<Rightarrow>
          (let its' = (case remove_loop pathToKey toNumber it p of
                         None \<Rightarrow> removeItem its itemIndex
                       | Some it' \<Rightarrow> its[nat itemIndex := it'])
           in Inr (setPlaylistItems its' (setPlaylistCurrent None st))))"

subsection \<open>setCurrent\<close>

text \<open>
  The \<open>for\<close> loop of \<open>setCurrent\<close>: the index of the first track whose key
  \<open>pathToKey(item.root.concat(item.tracks[i]))\<close> is the wanted one, or \<open>-1\<close>.
\<close>

fun findTrack :: "(path \<Rightarrow> 'k) \<Rightarrow> path \<Rightarrow> 'k \<Rightarrow> path list \<Rightarrow> int \<Rightarrow> int" where
  "findTrack pathToKey r k [] i = - 1"
| "findTrack pathToKey r k (t # ts) i =
     (if pathToKey (r @ t) = k then i else findTrack pathToKey r k ts (i + 1))"

text \<open>
  \<open>setCurrent(itemIndex, path)\<close>. The Boolean of the result tells whether
  \<open>console.error\<close> was called.
\<close>

definition setCurrent ::
  "(path \<Rightarrow> 'k) \<Rightarrow> 'k store \<Rightarrow> int \<Rightarrow> path \<Rightarrow> js_error + (bool \<times> 'k store)" where
  "setCurrent pathToKey st itemIndex p =
     (case getPlaylistItem st itemIndex of
        None \<Rightarrow> Inl TypeError
      | Some it \<Rightarrow>
          (let k = pathToKey p;
               trk = findTrack pathToKey (root it) k (tracks it) 0
           in Inr (trk = - 1,
                   setPlaylistCurrent
                     (Some \<lparr>item = itemIndex, track = trk, path = Some p\<rparr>) st)))"

subsection \<open>buildPlaylistItem\<close>

text \<open>
  What \<open>CollectionStore.getCollection\<close> returns for a path: an object whose \<open>Groups\<close>
  and \<open>Tracks\<close> are arrays or absent. A group is represented by its \<open>Key\<close>, the one
  field the code reads. The function itself belongs to another module and is a
  parameter; \<open>None\<close> stands for \<open>null\<close> or \<open>undefined\<close>, on which \<open>c.Groups\<close> throws.
\<close>

record 't collection =
  Groups :: "key list option"
  Tracks :: "'t list option"

text \<open>
  The \<open>while (queue.length > 0)\<close> loop. It need not end (the catalog may be
  infinitely deep), so it is a partial function: \<open>None\<close> is "does not return".
  In the last branch the code only logs to the console and stores \<open>{}\<close>.
\<close>

partial_function (option) buildLoop ::
  "(path \<Rightarrow> 't collection option) \<Rightarrow> (path \<Rightarrow> 'k) \<Rightarrow> path \<Rightarrow> path list \<Rightarrow> path list
     \<Rightarrow> ('k \<rightharpoonup> node) \<Rightarrow> path list \<Rightarrow> (js_error + 'k playlistItem) option" where
  "buildLoop getCollection pathToKey rt queue trks d ps =
     (case queue of
        [] \<Rightarrow> Some (Inr \<lparr>root = rt, paths = ps, data = d, tracks = trks\<rparr>)
      | p # q \<Rightarrow>
          (case getCollection (rt @ p) of
             None \<Rightarrow> Some (Inl TypeError)
           | Some c \<Rightarrow>
               (case Groups c of
                  Some gs \<Rightarrow>
                    buildLoop getCollection pathToKey rt (q @ map (\<lambda>g. p @ [g]) gs) trks
                      (d(pathToKey (rt @ p) \<mapsto>
                           \<lparr>type_of = Some TYPE_GROUP, keys = Some gs\<rparr>))
                      (ps @ [p])
                | None \<Rightarrow>
                    (case Tracks c of
                       Some ts \<Rightarrow>
                         buildLoop getCollection pathToKey rt q
                           (trks @ map (\<lambda>i. p @ [KNum i]) [0..<length ts])
                           (d(pathToKey (rt @ p) \<mapsto>
                                \<lparr>type_of = Some TYPE_TRACKS,
                                 keys = Some (map KNum [0..<length ts])\<rparr>))
                           (ps @ [p])
                     | None \<Rightarrow>
                         buildLoop getCollection pathToKey rt q trks
                           (d(pathToKey (rt @ p) \<mapsto> \<lparr>type_of = None, keys = None\<rparr>))
                           (ps @ [p])))))"

definition buildPlaylistItem ::
  "(path \<Rightarrow> 't collection option) \<Rightarrow> (path \<Rightarrow> 'k) \<Rightarrow> path
     \<Rightarrow> (js_error + 'k playlistItem) option" where
  "buildPlaylistItem getCollection pathToKey rt =
     buildLoop getCollection pathToKey rt [[]] [] Map.empty []"

section \<open>The websocket handler (websocket.go)\<close>

text \<open>
  An \<open>index.Key\<close> is a string and an \<open>index.Path\<close> a slice of Keys. A Go \<open>error\<close> is
  represented by its message, and a function that returns \<open>(value, error)\<close> by a
  pair whose second component is \<open>None\<close> for \<open>nil\<close>.
\<close>

type_synonym gpath = "string list"

type_synonym error = string

text \<open>
  The values \<open>encoding/json\<close> stores in an \<open>interface{}\<close>: \<open>nil\<close>, \<open>bool\<close>,
  \<open>float64\<close> (represented by the real number it denotes), \<open>string\<close>,
  \<open>[]interface{}\<close> and \<open>map[string]interface{}\<close>.
\<close>

datatype jvalue =
    JNil
  | JBool bool
  | JFloat real
  | JString string
  | JArray "jvalue list"
  | JObject "(string \<times> jvalue) list"

record Command =
  Action :: string
  Data :: "string \<rightharpoonup> jvalue"

datatype 'd Response = Response string 'd

text \<open>What \<open>%T\<close> prints for a value.\<close>

fun go_type :: "jvalue \<Rightarrow> string" where
  "go_type JNil = ''<nil>''"
| "go_type (JBool b) = ''bool''"
| "go_type (JFloat x) = ''float64''"
| "go_type (JString s) = ''string''"
| "go_type (JArray xs) = ''[]interface {}''"
| "go_type (JObject kvs) = ''map[string]interface {}''"

definition quoted :: "string \<Rightarrow> string" where
  "quoted s = [CHR 0x27] @ s @ [CHR 0x27]"

text \<open>\<open>fmt.Errorf("expected '%s' in data map", f)\<close>\<close>

definition missing_field :: "string \<Rightarrow> error" where
  "missing_field f = ''expected '' @ quoted f @ '' in data map''"

text \<open>\<open>fmt.Errorf("expected '%s' to be of type 'T', got '%T'", f, raw)\<close>\<close>

definition wrong_type :: "string \<Rightarrow> string \<Rightarrow> jvalue \<Rightarrow> error" where
  "wrong_type f T raw =
     ''expected '' @ quoted f @ '' to be of type '' @ quoted T @ '', got ''
       @ quoted (go_type raw)"

definition get :: "Command \<Rightarrow> string \<Rightarrow> jvalue \<times> error option" where
  "get c f =
     (case Data c f of
        None \<Rightarrow> (JNil, Some (missing_field f))
      | Some raw \<Rightarrow> (raw, None))"

definition getString :: "Command \<Rightarrow> string \<Rightarrow> string \<times> error option" where
  "getString c f =
     (case get c f of
        (raw, Some err) \<Rightarrow> ('''', Some err)
      | (raw, None) \<Rightarrow>
          (case raw of
             JString v \<Rightarrow> (v, None)
           | _ \<Rightarrow> ('''', Some (wrong_type f ''string'' raw))))"

definition getFloat :: "Command \<Rightarrow> string \<Rightarrow> real \<times> error option" where
  "getFloat c f =
     (case get c f of
        (raw, Some err) \<Rightarrow> (0, Some err)
      | (raw, None) \<Rightarrow>
          (case raw of
             JFloat v \<Rightarrow> (v, None)
           | _ \<Rightarrow> (0, Some (wrong_type f ''float64'' raw))))"

text \<open>
  The conversion \<open>int(raw)\<close> of a \<open>float64\<close>, with \<open>int\<close> 64 bits wide: the fraction
  is discarded (truncation towards zero) when the result fits a 64-bit integer.
  Beyond that range the language leaves the result to the implementation; the model
  takes it as the parameter \<open>beyond\<close>, read as a 64-bit two's complement integer.
\<close>

definition int64 :: "int \<Rightarrow> int" where
  "int64 v = (v + 2 ^ 63) mod 2 ^ 64 - 2 ^ 63"

definition towards_zero :: "real \<Rightarrow> int" where
  "towards_zero x = (if 0 \<le> x then \<lfloor>x\<rfloor> else \<lceil>x\<rceil>)"

definition go_int :: "(real \<Rightarrow> int) \<Rightarrow> real \<Rightarrow> int" where
  "go_int beyond x =
     (let t = towards_zero x
      in if - (2 ^ 63) \<le> t \<and> t < 2 ^ 63 then t else int64 (beyond x))"

definition getInt :: "(real \<Rightarrow> int) \<Rightarrow> Command \<Rightarrow> string \<Rightarrow> int \<times> error option" where
  "getInt beyond c f =
     (case getFloat c f of
        (raw, Some err) \<Rightarrow> (0, Some err)
      | (raw, None) \<Rightarrow> (go_int beyond raw, None))"


text \<open>
  \<open>cursor.RepAction\<close> and \<open>playlist.RepAction\<close>: the fields \<open>Name\<close>, \<open>Action\<close>,
  \<open>Path\<close> and \<open>Index\<close>, in this order.
\<close>

datatype RepAction = RepAction string string gpath int

text \<open>
  What the handler calls in other packages and in the rest of the program, taken as
  parameters: \<open>'m\<close> is the state behind \<open>h.meta\<close>, \<open>h.lib\<close> and \<open>h.players\<close>, and \<open>'d\<close>
  what a \<open>Response\<close> carries as \<open>Data\<close>. \<open>other_handlers\<close> stands for the handlers of
  the nine actions that read neither cursors, playlists nor the searcher, and
  \<open>int_beyond\<close> for what the platform makes of \<open>int(x)\<close> beyond the range of \<open>int\<close>.
\<close>

record ('m, 'd) env =
  int_beyond :: "real \<Rightarrow> int"
  Searcher_Search :: "string \<Rightarrow> gpath list"
  ExpandPaths :: "gpath list \<Rightarrow> 'd"
  PathFromJSONInterface :: "jvalue \<Rightarrow> gpath \<times> error option"
  cursor_Apply :: "RepAction \<Rightarrow> 'm \<Rightarrow> 'm \<times> error option"
  cursors_Get :: "'m \<Rightarrow> string \<Rightarrow> 'd"
  playlist_Apply :: "RepAction \<Rightarrow> 'm \<Rightarrow> 'm \<times> error option"
  playlists_Get :: "'m \<Rightarrow> string \<Rightarrow> 'd"
  other_handlers :: "Command \<Rightarrow> 'm \<Rightarrow> 'm \<times> 'd Response option \<times> error option"
  Send :: "'d Response \<Rightarrow> error option"

definition getPath :: "('m, 'd) env \<Rightarrow> Command \<Rightarrow> string \<Rightarrow> gpath \<times> error option" where
  "getPath e c f =
     (case get c f of
        (raw, Some err) \<Rightarrow> ([], Some err)
      | (raw, None) \<Rightarrow> PathFromJSONInterface e raw)"

subsection \<open>sameSearcher\<close>

text \<open>
  The fields \<open>paths\<close> and \<open>same\<close> of \<open>sameSearcher\<close> (prefixed, as \<open>paths\<close> is a field
  of a playlist item above); the embedded \<open>Searcher\<close> is \<open>Searcher_Search\<close>.
\<close>

record sameSearcher =
  s_paths :: "gpath list"
  s_same :: bool

datatype go_panic = IndexOutOfRange

text \<open>
  The \<open>for i, path := range r.paths\<close> loop, run when both slices have the same
  length. \<open>path[1]\<close> and \<open>paths[i][1]\<close> panic on a Path with fewer than two Keys. The
  result is the value of \<open>r.same\<close> the loop leaves.
\<close>

fun same_loop :: "gpath list \<Rightarrow> gpath list \<Rightarrow> go_panic + bool" where
  "same_loop [] qs = Inr True"
| "same_loop (p # ps) [] = Inl IndexOutOfRange"
| "same_loop (p # ps) (q # qs) =
     (if length p < 2 \<or> length q < 2 then Inl IndexOutOfRange
      else if p ! 1 \<noteq> q ! 1 then Inr False
      else same_loop ps qs)"

definition Search ::
  "(string \<Rightarrow> gpath list) \<Rightarrow> sameSearcher \<Rightarrow> string \<Rightarrow> go_panic + (sameSearcher \<times> gpath list)"
  where
  "Search srch r input =
     (let ps = srch input in
      if length (s_paths r) = length ps
      then (case same_loop (s_paths r) ps of
              Inl pn \<Rightarrow> Inl pn
            | Inr b \<Rightarrow> Inr (\<lparr>s_paths = ps, s_same = b\<rparr>, ps))
      else Inr (\<lparr>s_paths = ps, s_same = False\<rparr>, ps))"

subsection \<open>The handlers\<close>

record 'm websocketHandler =
  searcher :: sameSearcher
  meta :: 'm

text \<open>The handler \<open>NewWebsocketHandler\<close> creates: a searcher with no paths yet.\<close>

definition new_handler :: "'m \<Rightarrow> 'm websocketHandler" where
  "new_handler m = \<lparr>searcher = \<lparr>s_paths = [], s_same = False\<rparr>, meta = m\<rparr>"

text \<open>
  A handler returns the handler's new state, the Response (\<open>None\<close> for \<open>nil\<close>) and the
  error (\<open>None\<close> for \<open>nil\<close>).
\<close>

definition search ::
  "('m, 'd) env \<Rightarrow> 'm websocketHandler \<Rightarrow> Command
     \<Rightarrow> go_panic + ('m websocketHandler \<times> 'd Response option \<times> error option)" where
  "search e h c =
     (case getString c ''input'' of
        (input, Some err) \<Rightarrow> Inr (h, None, Some err)
      | (input, None) \<Rightarrow>
          (case Search (Searcher_Search e) (searcher h) input of
             Inl pn \<Rightarrow> Inl pn
           | Inr (r, ps) \<Rightarrow>
               if s_same r then Inr (h\<lparr>searcher := r\<rparr>, None, None)
               else Inr (h\<lparr>searcher := r\<rparr>,
                         Some (Response (Action c) (ExpandPaths e ps)), None)))"

definition cursor ::
  "('m, 'd) env \<Rightarrow> 'm websocketHandler \<Rightarrow> Command
     \<Rightarrow> 'm websocketHandler \<times> 'd Response option \<times> error option" where
  "cursor e h c =
     (case getString c ''name'' of
        (name, Some err) \<Rightarrow> (h, None, Some err)
      | (name, None) \<Rightarrow>
          (case getString c ''action'' of
             (action, Some err) \<Rightarrow> (h, None, Some err)
           | (action, None) \<Rightarrow>
               if action \<noteq> ''FETCH''
               then (let pth = fst (getPath e c ''path'');
                         idx = fst (getInt (int_beyond e) c ''index'');
                         ra = RepAction name action pth idx
                     in case cursor_Apply e ra (meta h) of
                          (m, Some err) \<Rightarrow> (h\<lparr>meta := m\<rparr>, None, Some err)
                        | (m, None) \<Rightarrow>
                            (h\<lparr>meta := m\<rparr>,
                             Some (Response (Action c) (cursors_Get e m name)), None))
               else (h, Some (Response (Action c) (cursors_Get e (meta h) name)), None)))"

definition playlist ::
  "('m, 'd) env \<Rightarrow> 'm websocketHandler \<Rightarrow> Command
     \<Rightarrow> 'm websocketHandler \<times> 'd Response option \<times> error option" where
  "playlist e h c =
     (case getString c ''name'' of
        (name, Some err) \<Rightarrow> (h, None, Some err)
      | (name, None) \<Rightarrow>
          (case getString c ''action'' of
             (action, Some err) \<Rightarrow> (h, None, Some err)
           | (action, None) \<Rightarrow>
               if action \<noteq> ''FETCH''
               then (case getPath e c ''path'' of
                       (pth, Some err) \<Rightarrow> (h, None, Some err)
                     | (pth, None) \<Rightarrow>
                         (let idx = fst (getInt (int_beyond e) c ''index'');
                              ra = RepAction name action pth idx
                          in case playlist_Apply e ra (meta h) of
                               (m, Some err) \<Rightarrow> (h\<lparr>meta := m\<rparr>, None, Some err)
                             | (m, None) \<Rightarrow>
                                 (h\<lparr>meta := m\<rparr>,
                                  Some (Response (Action c) (playlists_Get e m name)), None)))
               else (h, Some (Response (Action c) (playlists_Get e (meta h) name)), None)))"

subsection \<open>The dispatch loop\<close>

text \<open>The actions of the \<open>switch\<close> whose handlers are \<open>other_handlers\<close>.\<close>

definition other_actions :: "string list" where
  "other_actions =
     [''KEY'', ''PLAYER'', ''RECORD_PLAY'', ''SET_FAVOURITE'', ''SET_CHECKLIST'', ''FETCH'',
      ''FILTER_LIST'', ''FILTER_PATHS'', ''FETCH_PATHLIST'']"

text \<open>The \<open>switch c.Action\<close> of \<open>Handle\<close>.\<close>

definition dispatch ::
  "('m, 'd) env \<Rightarrow> 'm websocketHandler \<Rightarrow> Command
     \<Rightarrow> go_panic + ('m websocketHandler \<times> 'd Response option \<times> error option)" where
  "dispatch e h c =
     (if Action c = ''PLAYLIST'' then Inr (playlist e h c)
      else if Action c = ''CURSOR'' then Inr (cursor e h c)
      else if Action c = ''SEARCH'' then search e h c
      else if List.member other_actions (Action c)
      then (case other_handlers e c (meta h) of
              (m, resp, err) \<Rightarrow> Inr (h\<lparr>meta := m\<rparr>, resp, err))
      else Inr (h, None, Some (''unknown action: '' @ Action c)))"

text \<open>
  What \<open>websocket.JSON.Receive\<close> yields: a Command, or an error. A connection whose
  list of events is used up is at its end (\<open>io.EOF\<close>).
\<close>

datatype received = Received Command | ReceiveFailed error

definition EOF :: error where
  "EOF = ''EOF''"

text \<open>
  The loop of \<open>Handle\<close> over the events of a connection: the handler's final state,
  the Responses sent, and how the loop ended (the error it broke with, or a panic).
  The deferred \<open>h.players.Remove(h.playerKey)\<close> and the logging of the error act on
  the player registry and the log only and are left out.
\<close>

fun Handle ::
  "('m, 'd) env \<Rightarrow> 'm websocketHandler \<Rightarrow> received list
     \<Rightarrow> 'm websocketHandler \<times> 'd Response list \<times> (go_panic + error)" where
  "Handle e h [] = (h, [], Inr EOF)"
| "Handle e h (ReceiveFailed err # evs) =
     (h, [], Inr (if err \<noteq> EOF then ''receive: '' @ err else err))"
| "Handle e h (Received c # evs) =
     (case dispatch e h c of
        Inl pn \<Rightarrow> (h, [], Inl pn)
      | Inr (h', resp, Some err) \<Rightarrow> (h', [], Inr err)
      | Inr (h', None, None) \<Rightarrow> Handle e h' evs
      | Inr (h', Some r, None) \<Rightarrow>
          (case Send e r of
             Some err \<Rightarrow> (h', [], Inr (if err \<noteq> EOF then ''send: '' @ err else err))
           | None \<Rightarrow>
               (case Handle e h' evs of
                  (h'', rs, out) \<Rightarrow> (h'', r # rs, out))))"

section \<open>Notions used to state the properties\<close>

subsection \<open>Traversal by NEXT\<close>

text \<open>The (item, track) pair of the current position, \<open>None\<close> when it is null.\<close>

definition position :: "'k store \<Rightarrow> (int \<times> int) option" where
  "position st = map_option (\<lambda>c. (item c, track c)) (playlistCurrent st)"

text \<open>
  The positions seen when \<open>next\<close> is applied again and again: the position of the
  state, then those of its successors, \<open>n\<close> in all (fewer when \<open>next\<close> throws).
\<close>

fun visit :: "nat \<Rightarrow> 'k store \<Rightarrow> (int \<times> int) option list" where
  "visit 0 st = []"
| "visit (Suc n) st =
     position st # (case next st of Inl e \<Rightarrow> [] | Inr st' \<Rightarrow> visit n st')"

text \<open>
  The (item, track) pairs of a playlist, item by item and track by track: this is the
  order the specification calls lexicographic.
\<close>

definition track_row :: "'k playlistItem list \<Rightarrow> nat \<Rightarrow> (int \<times> int) list" where
  "track_row its i = map (\<lambda>j. (int i, int j)) [0..<length (tracks (its ! i))]"

definition lex_positions :: "'k playlistItem list \<Rightarrow> (int \<times> int) list" where
  "lex_positions its = concat (map (track_row its) [0..<length its])"

text \<open>The pairs from \<open>(i, j)\<close> onwards.\<close>

definition rest_from :: "'k playlistItem list \<Rightarrow> nat \<Rightarrow> nat \<Rightarrow> (int \<times> int) list" where
  "rest_from its i j =
     map (\<lambda>j. (int i, int j)) [j..<length (tracks (its ! i))]
     @ concat (map (track_row its) [Suc i..<length its])"

fun lex_less :: "int \<times> int \<Rightarrow> int \<times> int \<Rightarrow> bool" where
  "lex_less (a, b) (c, d) = (a < c \<or> (a = c \<and> b < d))"

subsection \<open>A sample catalog and its playlist items\<close>

text \<open>
  A catalog with an album of two groups, \<open>A\<close> (two tracks) and \<open>B\<close> (one track), a
  single of one track, and a collection whose track list is empty. Tracks carry no
  data here. In the examples \<open>pathToKey\<close> is the identity.
\<close>

definition album :: path where
  "album = [KStr ''Root'', KStr ''Album'']"

definition single :: path where
  "single = [KStr ''Root'', KStr ''Single'']"

definition hollow :: path where
  "hollow = [KStr ''Root'', KStr ''Hollow'']"

definition sample_catalog :: "path \<Rightarrow> unit collection option" where
  "sample_catalog p =
     (if p = album then Some \<lparr>Groups = Some [KStr ''A'', KStr ''B''], Tracks = None\<rparr>
      else if p = album @ [KStr ''A''] then Some \<lparr>Groups = None, Tracks = Some [(), ()]\<rparr>
      else if p = album @ [KStr ''B''] then Some \<lparr>Groups = None, Tracks = Some [()]\<rparr>
      else if p = single then Some \<lparr>Groups = None, Tracks = Some [()]\<rparr>
      else if p = hollow then Some \<lparr>Groups = None, Tracks = Some []\<rparr>
      else None)"

definition album_item :: "path playlistItem" where
  "album_item =
     \<lparr>root = album,
      paths = [[], [KStr ''A''], [KStr ''B'']],
      data = [album \<mapsto> \<lparr>type_of = Some TYPE_GROUP, keys = Some [KStr ''A'', KStr ''B'']\<rparr>,
              album @ [KStr ''A''] \<mapsto>
                \<lparr>type_of = Some TYPE_TRACKS, keys = Some [KNum 0, KNum 1]\<rparr>,
              album @ [KStr ''B''] \<mapsto> \<lparr>type_of = Some TYPE_TRACKS, keys = Some [KNum 0]\<rparr>],
      tracks = [[KStr ''A'', KNum 0], [KStr ''A'', KNum 1], [KStr ''B'', KNum 0]]\<rparr>"

definition single_item :: "path playlistItem" where
  "single_item =
     \<lparr>root = single,
      paths = [[]],
      data = [single \<mapsto> \<lparr>type_of = Some TYPE_TRACKS, keys = Some [KNum 0]\<rparr>],
      tracks = [[KNum 0]]\<rparr>"

definition hollow_item :: "path playlistItem" where
  "hollow_item =
     \<lparr>root = hollow,
      paths = [[]],
      data = [hollow \<mapsto> \<lparr>type_of = Some TYPE_TRACKS, keys = Some []\<rparr>],
      tracks = []\<rparr>"

definition two_items :: "path store" where
  "two_items = \<lparr>playlistItems = [album_item, single_item], playlistCurrent = None\<rparr>"

definition hollow_only :: "path store" where
  "hollow_only = \<lparr>playlistItems = [hollow_item], playlistCurrent = None\<rparr>"

subsection \<open>Breadth-first order\<close>

text \<open>
  What the specification says of a visited node, read off the catalog: the Paths of
  its children, in the order of its child-Key list, when it is internal; the Paths of
  its tracks, in the order of their indices, when it is a leaf; and what is recorded
  for it. All Paths are relative to the root \<open>rt\<close>.
\<close>

definition child_paths :: "(path \<Rightarrow> 't collection option) \<Rightarrow> path \<Rightarrow> path \<Rightarrow> path list" where
  "child_paths getCollection rt p =
     (case getCollection (rt @ p) of
        None \<Rightarrow> []
      | Some c \<Rightarrow> (case Groups c of Some gs \<Rightarrow> map (\<lambda>g. p @ [g]) gs | None \<Rightarrow> []))"

definition leaf_tracks :: "(path \<Rightarrow> 't collection option) \<Rightarrow> path \<Rightarrow> path \<Rightarrow> path list" where
  "leaf_tracks getCollection rt p =
     (case getCollection (rt @ p) of
        None \<Rightarrow> []
      | Some c \<Rightarrow>
          (case Groups c of
             Some gs \<Rightarrow> []
           | None \<Rightarrow>
               (case Tracks c of
                  Some ts \<Rightarrow> map (\<lambda>i. p @ [KNum i]) [0..<length ts]
                | None \<Rightarrow> [])))"

definition recorded :: "(path \<Rightarrow> 't collection option) \<Rightarrow> path \<Rightarrow> path \<Rightarrow> node" where
  "recorded getCollection rt p =
     (case getCollection (rt @ p) of
        None \<Rightarrow> \<lparr>type_of = None, keys = None\<rparr>
      | Some c \<Rightarrow>
          (case Groups c of
             Some gs \<Rightarrow> \<lparr>type_of = Some TYPE_GROUP, keys = Some gs\<rparr>
           | None \<Rightarrow>
               (case Tracks c of
                  Some ts \<Rightarrow> \<lparr>type_of = Some TYPE_TRACKS, keys = Some (map KNum [0..<length ts])\<rparr>
                | None \<Rightarrow> \<lparr>type_of = None, keys = None\<rparr>)))"

text \<open>
  The Paths at depth \<open>n\<close> below the root, from left to right: the children of the
  Paths at depth \<open>n - 1\<close>, parent by parent.
\<close>

fun level :: "(path \<Rightarrow> 't collection option) \<Rightarrow> path \<Rightarrow> nat \<Rightarrow> path list" where
  "level getCollection rt 0 = [[]]"
| "level getCollection rt (Suc n) =
     concat (map (child_paths getCollection rt) (level getCollection rt n))"

text \<open>Breadth-first order: level after level, for the depths below \<open>h\<close>.\<close>

definition breadth_first :: "(path \<Rightarrow> 't collection option) \<Rightarrow> path \<Rightarrow> nat \<Rightarrow> path list" where
  "breadth_first getCollection rt h = concat (map (level getCollection rt) [0..<h])"

text \<open>The dictionary after recording the Paths \<open>ps\<close> one after the other.\<close>

definition record_all ::
  "(path \<Rightarrow> 't collection option) \<Rightarrow> (path \<Rightarrow> 'k) \<Rightarrow> path \<Rightarrow> ('k \<rightharpoonup> node) \<Rightarrow> path list
     \<Rightarrow> ('k \<rightharpoonup> node)" where
  "record_all getCollection pathToKey rt d ps =
     foldl (\<lambda>d p. d(pathToKey (rt @ p) \<mapsto> recorded getCollection rt p)) d ps"

text \<open>
  A catalog of uneven depth: a box with a group \<open>D\<close>, which holds a group \<open>E\<close> of one
  track, and a group \<open>F\<close> of one track.
\<close>

definition box :: path where
  "box = [KStr ''Root'', KStr ''Box'']"

definition deep_catalog :: "path \<Rightarrow> unit collection option" where
  "deep_catalog p =
     (if p = box then Some \<lparr>Groups = Some [KStr ''D'', KStr ''F''], Tracks = None\<rparr>
      else if p = box @ [KStr ''D''] then Some \<lparr>Groups = Some [KStr ''E''], Tracks = None\<rparr>
      else if p = box @ [KStr ''F''] then Some \<lparr>Groups = None, Tracks = Some [()]\<rparr>
      else if p = box @ [KStr ''D'', KStr ''E''] then Some \<lparr>Groups = None, Tracks = Some [()]\<rparr>
      else None)"

text \<open>The sample playlist after \<open>reset\<close>: the current position is item 0, track 0.\<close>

definition at_first :: "path store" where
  "at_first = two_items\<lparr>playlistCurrent :=
      Some \<lparr>item = 0, track = 0, path = Some [KStr ''A'', KNum 0]\<rparr>\<rparr>"

subsection \<open>The Paths a search comparison reads\<close>

text \<open>
  Every Path that the comparison of two result lists of the same length reads has a
  second Key: at each index reached (all earlier indices having second Keys that
  agree) both Paths have at least two Keys.
\<close>

definition compared_have_second_key :: "gpath list \<Rightarrow> gpath list \<Rightarrow> bool" where
  "compared_have_second_key old new \<longleftrightarrow>
     (\<forall>i < length new.
        (\<forall>j < i. 2 \<le> length (old ! j) \<and> 2 \<le> length (new ! j) \<and> old ! j ! 1 = new ! j ! 1)
        \<longrightarrow> 2 \<le> length (old ! i) \<and> 2 \<le> length (new ! i))"

subsection \<open>A sample connection\<close>

text \<open>
  Collaborators for the examples: a platform on which \<open>int(x)\<close> beyond the range is
  the least \<open>int\<close>, a searcher with four known inputs, cursor and playlist stores
  whose \<open>Apply\<close> always succeeds, and a transport that never fails.
\<close>

definition sample_env :: "(unit, gpath list) env" where
  "sample_env =
     \<lparr>int_beyond = (\<lambda>x. - (2 ^ 63)),
      Searcher_Search = (\<lambda>s. if s = ''a'' then [[''Root'', ''x'', ''1''], [''Root'', ''y'']]
                             else if s = ''ab'' then [[''Other'', ''x''], [''Root'', ''y'', ''2'']]
                             else if s = ''abc'' then [[''Root'']]
                             else if s = ''b'' then [[''Root'', ''x'']]
                             else []),
      ExpandPaths = (\<lambda>ps. ps),
      PathFromJSONInterface = (\<lambda>v. ([], None)),
      cursor_Apply = (\<lambda>ra m. (m, None)),
      cursors_Get = (\<lambda>m n. [[n]]),
      playlist_Apply = (\<lambda>ra m. (m, None)),
      playlists_Get = (\<lambda>m n. [[n]]),
      other_handlers = (\<lambda>c m. (m, None, None)),
      Send = (\<lambda>r. None)\<rparr>"

text \<open>The Command \<open>{Action: "SEARCH", Data: {input: s}}\<close>.\<close>

definition search_cmd :: "string \<Rightarrow> Command" where
  "search_cmd s = \<lparr>Action = ''SEARCH'', Data = [''input'' \<mapsto> JString s]\<rparr>"

text \<open>The handler after a first SEARCH for \<open>a\<close>.\<close>

definition after_a :: "unit websocketHandler" where
  "after_a = \<lparr>searcher = \<lparr>s_paths = [[''Root'', ''x'', ''1''], [''Root'', ''y'']], s_same = False\<rparr>,
              meta = ()\<rparr>"



text \<open>The handler after a first SEARCH for \<open>b\<close>.\<close>

definition after_b :: "unit websocketHandler" where
  "after_b = \<lparr>searcher = \<lparr>s_paths = [[''Root'', ''x'']], s_same = False\<rparr>, meta = ()\<rparr>"


section \<open>Properties of the playlist store\<close>

subsection \<open>The sample items are what the code builds\<close>

lemma build_album_item:
  "buildPlaylistItem sample_catalog (\<lambda>p. p) album = Some (Inr album_item)"
  by (simp add: buildPlaylistItem_def buildLoop.simps sample_catalog_def album_def
      album_item_def upt_conv_Cons)

lemma build_single_item:
  "buildPlaylistItem sample_catalog (\<lambda>p. p) single = Some (Inr single_item)"
  by (simp add: buildPlaylistItem_def buildLoop.simps sample_catalog_def album_def
      single_def single_item_def upt_conv_Cons)

lemma build_hollow_item:
  "buildPlaylistItem sample_catalog (\<lambda>p. p) hollow = Some (Inr hollow_item)"
  by (simp add: buildPlaylistItem_def buildLoop.simps sample_catalog_def album_def
      single_def hollow_def hollow_item_def)

subsection \<open>NEXT walks the playlist\<close>

lemma rest_from_step:
  assumes "i < length its" "j < length (tracks (its ! i))"
  shows "rest_from its i j = (int i, int j) #
     (if Suc j < length (tracks (its ! i)) then rest_from its i (Suc j)
      else if Suc i < length its then rest_from its (Suc i) 0 else [])"
  using assms
  by (auto simp: rest_from_def track_row_def upt_conv_Cons)

lemma rest_from_0: "its \<noteq> [] \<Longrightarrow> rest_from its 0 0 = lex_positions its"
proof -
  assume "its \<noteq> []"
  then have "[0..<length its] = 0 # [Suc 0..<length its]"
    by (simp add: upt_conv_Cons)
  then show ?thesis
    by (simp add: rest_from_def lex_positions_def track_row_def)
qed

lemma next_in_item:
  assumes "playlistCurrent st = Some cur" "item cur = int i" "track cur = int j"
    "i < length (playlistItems st)" "Suc j < length (tracks (playlistItems st ! i))"
  shows "\<exists>st'. next st = Inr st' \<and> playlistItems st' = playlistItems st
     \<and> position st' = Some (int i, int (Suc j))"
  using assms by (simp add: next_def js_index_def setPlaylistCurrent_def position_def Let_def)

lemma next_to_item:
  assumes "playlistCurrent st = Some cur" "item cur = int i" "track cur = int j"
    "i < length (playlistItems st)" "\<not> Suc j < length (tracks (playlistItems st ! i))"
    "Suc i < length (playlistItems st)"
  shows "\<exists>st'. next st = Inr st' \<and> playlistItems st' = playlistItems st
     \<and> position st' = Some (int (Suc i), 0)"
  using assms by (simp add: next_def js_index_def setPlaylistCurrent_def position_def Let_def)

lemma next_at_end:
  assumes "playlistCurrent st = Some cur" "item cur = int i" "track cur = int j"
    "i < length (playlistItems st)" "\<not> Suc j < length (tracks (playlistItems st ! i))"
    "\<not> Suc i < length (playlistItems st)"
  shows "\<exists>st'. next st = Inr st' \<and> playlistItems st' = playlistItems st
     \<and> position st' = None"
  using assms by (simp add: next_def js_index_def setPlaylistCurrent_def position_def Let_def)

text \<open>
  From a position \<open>(i, j)\<close> that names a track, in a playlist whose items all have
  tracks, NEXT sees the pairs from \<open>(i, j)\<close> onwards and then null.
\<close>

lemma visit_rest:
  assumes "\<forall>it \<in> set (playlistItems st). tracks it \<noteq> []"
    and "position st = Some (int i, int j)"
    and "i < length (playlistItems st)" "j < length (tracks (playlistItems st ! i))"
    and "length (rest_from (playlistItems st) i j) = m"
  shows "visit (Suc m) st = map Some (rest_from (playlistItems st) i j) @ [None]"
  using assms
proof (induction m arbitrary: st i j)
  case 0
  then show ?case by (simp add: rest_from_step)
next
  case (Suc m)
  obtain cur where cur: "playlistCurrent st = Some cur" "item cur = int i" "track cur = int j"
    using Suc.prems(2) by (auto simp: position_def)
  let ?its = "playlistItems st"
  show ?case
  proof (cases "Suc j < length (tracks (?its ! i))")
    case True
    obtain st' where st': "next st = Inr st'" "playlistItems st' = ?its"
      "position st' = Some (int i, int (Suc j))"
      using next_in_item[OF cur Suc.prems(3) True] by blast
    have len: "length (rest_from ?its i (Suc j)) = m"
      using Suc.prems(5) True by (simp add: rest_from_step[OF Suc.prems(3,4)])
    have "visit (Suc m) st' = map Some (rest_from (playlistItems st') i (Suc j)) @ [None]"
      using Suc.IH[of st' i "Suc j"] Suc.prems(1,3) True st' len by simp
    then show ?thesis
      using st' True Suc.prems(2) by (simp add: rest_from_step[OF Suc.prems(3,4)])
  next
    case False
    show ?thesis
    proof (cases "Suc i < length ?its")
      case True
      obtain st' where st': "next st = Inr st'" "playlistItems st' = ?its"
        "position st' = Some (int (Suc i), 0)"
        using next_to_item[OF cur Suc.prems(3) False True] by blast
      have ne: "0 < length (tracks (?its ! Suc i))"
        using Suc.prems(1) True by (simp add: nth_mem)
      have len: "length (rest_from ?its (Suc i) 0) = m"
        using Suc.prems(5) True False by (simp add: rest_from_step[OF Suc.prems(3,4)])
      have "visit (Suc m) st' = map Some (rest_from (playlistItems st') (Suc i) 0) @ [None]"
        using Suc.IH[of st' "Suc i" 0] Suc.prems(1) True st' len ne by simp
      then show ?thesis
        using st' True False Suc.prems(2) by (simp add: rest_from_step[OF Suc.prems(3,4)])
    next
      case F2: False
      obtain st' where st': "next st = Inr st'" "position st' = None"
        using next_at_end[OF cur Suc.prems(3) False F2] by blast
      then show ?thesis using Suc.prems(2,5) False F2
        by (simp add: rest_from_step[OF Suc.prems(3,4)] split: sum.split)
    qed
  qed
qed

lemma set_rows:
  "set (concat (map (track_row its) [0..<n])) =
     {(int i, int j) | i j. i < n \<and> j < length (tracks (its ! i))}"
  by (auto simp: track_row_def)

lemma sorted_row: "sorted_wrt lex_less (track_row its i)"
  by (simp add: track_row_def sorted_wrt_map sorted_wrt_iff_nth_less)

lemma sorted_rows: "sorted_wrt lex_less (concat (map (track_row its) [0..<n]))"
proof (induction n)
  case 0
  then show ?case by simp
next
  case (Suc n)
  have "\<forall>x \<in> set (concat (map (track_row its) [0..<n])). \<forall>y \<in> set (track_row its n).
          lex_less x y"
    unfolding set_rows by (auto simp: track_row_def)
  then show ?case
    using Suc sorted_row[of its n] by (simp add: sorted_wrt_append)
qed

lemma lex_positions_two_items:
  "lex_positions (playlistItems two_items) = [(0, 0), (0, 1), (0, 2), (1, 0)]"
  by (simp add: lex_positions_def track_row_def two_items_def album_item_def
      single_item_def upt_conv_Cons)

text \<open>
  C1, as the code has it. The claim speaks of every playlist; \<open>next\<close> and \<open>reset\<close> never
  look whether an item has tracks, so the walk is the claimed one when every item
  holds at least one track. In a playlist with at least one item, all of whose items
  hold at least one track: from the freshly reset position, repeated NEXT sees
  exactly the (item, track) pairs of the playlist, in lexicographic order (the list
  \<open>lex_positions\<close>, which is strictly increasing and holds exactly the pairs
  \<open>(i, j)\<close> with \<open>j\<close> a track index of item \<open>i\<close>), each once, and then null; and NEXT
  on a null position resets it to item 0, track 0.
\<close>

theorem next_visits_lex_positions:
  assumes "playlistItems st \<noteq> []"
    and "\<forall>it \<in> set (playlistItems st). tracks it \<noteq> []"
  shows "visit (Suc (length (lex_positions (playlistItems st)))) (reset st)
           = map Some (lex_positions (playlistItems st)) @ [None]
       \<and> sorted_wrt lex_less (lex_positions (playlistItems st))
       \<and> set (lex_positions (playlistItems st))
           = {(int i, int j) | i j. i < length (playlistItems st)
                \<and> j < length (tracks (playlistItems st ! i))}
       \<and> next (st\<lparr>playlistCurrent := None\<rparr>) = Inr (reset st)
       \<and> position (reset st) = Some (0, 0)"
proof -
  let ?its = "playlistItems st"
  have pos: "position (reset st) = Some (int 0, int 0)"
    using assms(1) by (simp add: reset_def position_def setPlaylistCurrent_def)
  have its: "playlistItems (reset st) = ?its"
    by (simp add: reset_def setPlaylistCurrent_def Let_def)
  have t0: "0 < length (tracks (?its ! 0))"
    using assms by (simp add: nth_mem)
  have "visit (Suc (length (rest_from ?its 0 0))) (reset st)
          = map Some (rest_from (playlistItems (reset st)) 0 0) @ [None]"
    using visit_rest[of "reset st" 0 0 "length (rest_from ?its 0 0)"] assms pos its t0
    by simp
  then have v: "visit (Suc (length (lex_positions ?its))) (reset st)
          = map Some (lex_positions ?its) @ [None]"
    using assms(1) by (simp add: its rest_from_0)
  have n: "next (st\<lparr>playlistCurrent := None\<rparr>) = Inr (reset st)"
    by (simp add: next_def reset_def setPlaylistCurrent_def)
  show ?thesis
    using v n pos sorted_rows[of ?its "length ?its"] set_rows[of ?its "length ?its"]
    by (simp add: lex_positions_def)
qed

theorem next_visits_lex_positions_witness:
  "visit 5 (reset two_items) = [Some (0, 0), Some (0, 1), Some (0, 2), Some (1, 0), None]
   \<and> next (two_items\<lparr>playlistCurrent := None\<rparr>) = Inr (reset two_items)
   \<and> position (reset two_items) = Some (0, 0)"
proof -
  have a: "playlistItems two_items \<noteq> []" by (simp add: two_items_def)
  have b: "\<forall>it \<in> set (playlistItems two_items). tracks it \<noteq> []"
    by (simp add: two_items_def album_item_def single_item_def)
  have c: "Suc (length (lex_positions (playlistItems two_items))) = 5"
    by (simp add: lex_positions_two_items)
  have "visit (Suc (length (lex_positions (playlistItems two_items)))) (reset two_items)
          = map Some (lex_positions (playlistItems two_items)) @ [None]"
    and "next (two_items\<lparr>playlistCurrent := None\<rparr>) = Inr (reset two_items)"
    and "position (reset two_items) = Some (0, 0)"
    using next_visits_lex_positions[OF a b] by blast+
  then show ?thesis
    unfolding c by (simp add: lex_positions_two_items)
qed

text \<open>
  The claim fails for a playlist whose only item has no track (the item that
  \<open>buildPlaylistItem\<close> makes of a collection with an empty track list): the playlist
  has no (item, track) pair, yet the reset position is item 0, track 0, and it is
  visited before null.
\<close>

theorem next_visits_counterexample:
  "lex_positions (playlistItems hollow_only) = []
   \<and> visit 2 (reset hollow_only) = [Some (0, 0), None]"
  by (simp add: lex_positions_def track_row_def hollow_only_def hollow_item_def reset_def
      setPlaylistCurrent_def position_def next_def js_index_def numeral_2_eq_2)

subsection \<open>canNext and canPrev\<close>

lemma next_nonnull:
  assumes "playlistCurrent st = Some cur"
    and "0 \<le> item cur" and "item cur < int (length (playlistItems st))"
  shows "\<exists>st'. next st = Inr st' \<and> canNext st = Inr (playlistCurrent st' \<noteq> None)"
  using assms
  by (auto simp: next_def canNext_def js_index_def setPlaylistCurrent_def Let_def)

lemma prev_nonnull:
  assumes "playlistCurrent st = Some cur"
    and "0 \<le> item cur" and "item cur < int (length (playlistItems st))"
  shows "\<exists>st'. prev st = Inr st' \<and> canPrev st = (position st' \<noteq> position st)"
  using assms
  by (auto simp: prev_def canPrev_def getPlaylistItem_def js_index_def setPlaylistCurrent_def
      position_def Let_def)

text \<open>
  C2, as the code has it. For a state whose current position is not null and whose
  item index addresses an item of the playlist, \<open>canNext\<close> is true exactly when NEXT
  leaves a non-null position, and \<open>canPrev\<close> is true exactly when PREV changes the
  (item, track) position. With a null current position both predicates are false,
  while NEXT and PREV both reset the position (to item 0, track 0 when the playlist
  has an item). Both predicates are functions of the state that return a Boolean only:
  they change nothing.
\<close>

theorem canNext_canPrev:
  "(\<forall>cur. playlistCurrent st = Some cur \<and> 0 \<le> item cur
          \<and> item cur < int (length (playlistItems st)) \<longrightarrow>
      (\<exists>st'. next st = Inr st' \<and> canNext st = Inr (playlistCurrent st' \<noteq> None))
      \<and> (\<exists>st'. prev st = Inr st' \<and> canPrev st = (position st' \<noteq> position st)))
   \<and> (playlistCurrent st = None \<longrightarrow>
        canNext st = Inr False \<and> \<not> canPrev st
        \<and> next st = Inr (reset st) \<and> prev st = Inr (reset st)
        \<and> (playlistItems st \<noteq> [] \<longrightarrow> position (reset st) = Some (0, 0)))"
  apply (intro conjI allI impI)
  subgoal using next_nonnull by blast
  subgoal using prev_nonnull by blast
  subgoal by (simp add: canNext_def)
  subgoal by (simp add: canPrev_def)
  subgoal by (simp add: next_def)
  subgoal by (simp add: prev_def)
  subgoal by (simp add: reset_def position_def setPlaylistCurrent_def)
  done

lemma reset_two_items: "reset two_items = at_first"
  by (simp add: reset_def two_items_def at_first_def setPlaylistCurrent_def js_index_def
      album_item_def)

text \<open>The theorem at the sample playlist, at its first track and at the null position.\<close>

theorem canNext_canPrev_witness:
  "canNext at_first = Inr True \<and> canPrev at_first = False
   \<and> canNext two_items = Inr False \<and> next two_items = Inr at_first"
proof -
  let ?cur = "\<lparr>item = 0, track = 0, path = Some [KStr ''A'', KNum 0]\<rparr>"
  have c: "playlistCurrent at_first = Some ?cur \<and> 0 \<le> item ?cur
      \<and> item ?cur < int (length (playlistItems at_first))"
    by (simp add: at_first_def two_items_def)
  obtain st' where n: "next at_first = Inr st'"
      "canNext at_first = Inr (playlistCurrent st' \<noteq> None)"
    using canNext_canPrev[of at_first] c by blast
  obtain st'' where p: "prev at_first = Inr st''"
      "canPrev at_first = (position st'' \<noteq> position at_first)"
    using canNext_canPrev[of at_first] c by blast
  have "playlistCurrent st' \<noteq> None"
    using n(1) by (auto simp: next_def at_first_def two_items_def js_index_def
        setPlaylistCurrent_def album_item_def Let_def)
  moreover have "st'' = at_first"
    using p(1) by (auto simp: prev_def at_first_def two_items_def js_index_def
        getPlaylistItem_def)
  moreover have "playlistCurrent two_items = None" by (simp add: two_items_def)
  then have "canNext two_items = Inr False" "next two_items = Inr (reset two_items)"
    using canNext_canPrev[of two_items] by blast+
  ultimately show ?thesis using n p by (simp add: reset_two_items)
qed

text \<open>
  The claim includes the null position, and there it fails: on the sample playlist
  with a null position \<open>canNext\<close> and \<open>canPrev\<close> are false, yet NEXT yields a non-null
  position and PREV changes the position (both to item 0, track 0).
\<close>

theorem canNext_canPrev_counterexample:
  "canNext two_items = Inr False \<and> next two_items = Inr at_first
   \<and> \<not> canPrev two_items \<and> prev two_items = Inr at_first
   \<and> playlistCurrent two_items = None
   \<and> playlistCurrent at_first = Some \<lparr>item = 0, track = 0, path = Some [KStr ''A'', KNum 0]\<rparr>"
proof -
  have c: "playlistCurrent two_items = None" by (simp add: two_items_def)
  have d: "playlistCurrent at_first
      = Some \<lparr>item = 0, track = 0, path = Some [KStr ''A'', KNum 0]\<rparr>"
    by (simp add: at_first_def)
  show ?thesis
    by (simp add: canNext_def canPrev_def next_def prev_def c d reset_two_items)
qed

subsection \<open>REMOVE\<close>

lemma js_ne_refl: "\<not> js_ne toNumber k k"
  by (cases k) simp_all

text \<open>\<open>_isPathPrefix\<close> compares the Keys of the prefix one by one with \<open>!=\<close>.\<close>

lemma isPathPrefix_from_iff:
  "isPathPrefix_from toNumber p pre i
     \<longleftrightarrow> (\<forall>k. i \<le> k \<and> k < length pre \<longrightarrow> \<not> js_ne toNumber (p ! k) (pre ! k))"
proof (induction toNumber p pre i rule: isPathPrefix_from.induct)
  case (1 toNumber p pre i)
  show ?case
  proof (cases "i < length pre")
    case False
    then show ?thesis by (subst isPathPrefix_from.simps) auto
  next
    case True
    show ?thesis
    proof (cases "js_ne toNumber (p ! i) (pre ! i)")
      case ne: True
      then show ?thesis using True by (subst isPathPrefix_from.simps) auto
    next
      case eq: False
      have "isPathPrefix_from toNumber p pre i = isPathPrefix_from toNumber p pre (Suc i)"
        using True eq by (subst isPathPrefix_from.simps) simp
      also have "\<dots> \<longleftrightarrow> (\<forall>k. Suc i \<le> k \<and> k < length pre
                          \<longrightarrow> \<not> js_ne toNumber (p ! k) (pre ! k))"
        using "1.IH"[OF True eq] .
      also have "\<dots> \<longleftrightarrow> (\<forall>k. i \<le> k \<and> k < length pre
                          \<longrightarrow> \<not> js_ne toNumber (p ! k) (pre ! k))"
        using eq by (metis Suc_leI le_neq_implies_less Suc_leD)
      finally show ?thesis .
    qed
  qed
qed

lemma pathsEqual_refl: "pathsEqual toNumber p p"
  by (simp add: pathsEqual_def isPathPrefix_def isPathPrefix_from_iff js_ne_refl)

lemma remove_loop_root:
  "pathsEqual toNumber p (root it) \<Longrightarrow> remove_loop pathToKey toNumber it p = None"
  by (simp add: remove_loop.simps)

lemma removeItem_in_range:
  "0 \<le> i \<Longrightarrow> i < int (length xs) \<Longrightarrow> removeItem xs i = take (nat i) xs @ drop (Suc (nat i)) xs"
  by (simp add: removeItem_def js_splice1_def min_def Let_def)

lemma remove_clears_current:
  assumes "0 \<le> i" and "i < int (length (playlistItems st))"
  shows "\<exists>st'. remove pathToKey toNumber st i p = Inr st' \<and> playlistCurrent st' = None"
  using assms
  by (simp add: remove_def js_index_def setPlaylistItems_def setPlaylistCurrent_def Let_def)

lemma remove_root:
  assumes "0 \<le> i" and "i < int (length (playlistItems st))"
    and "pathsEqual toNumber p (root (playlistItems st ! nat i))"
  shows "remove pathToKey toNumber st i p
     = Inr (st\<lparr>playlistItems := take (nat i) (playlistItems st)
                                  @ drop (Suc (nat i)) (playlistItems st),
               playlistCurrent := None\<rparr>)"
  using assms
  by (simp add: remove_def js_index_def setPlaylistItems_def setPlaylistCurrent_def Let_def
      remove_loop_root removeItem_in_range)

text \<open>
  C4. For an item index that addresses an item of the playlist: every REMOVE returns
  with the current position null; and when the path equals the root of the addressed
  item (as a list of Keys, or under the code's own \<open>_pathsEqual\<close>), REMOVE deletes
  exactly that item: the items before and after it stay, unchanged and in their
  order.
\<close>

theorem remove_root_item:
  assumes "0 \<le> i" and "i < int (length (playlistItems st))"
  shows "(\<exists>st'. remove pathToKey toNumber st i p = Inr st' \<and> playlistCurrent st' = None)
     \<and> (p = root (playlistItems st ! nat i) \<or> pathsEqual toNumber p (root (playlistItems st ! nat i))
          \<longrightarrow> remove pathToKey toNumber st i p
                = Inr (st\<lparr>playlistItems := take (nat i) (playlistItems st)
                                             @ drop (Suc (nat i)) (playlistItems st),
                          playlistCurrent := None\<rparr>))"
  using remove_clears_current[OF assms] remove_root[OF assms] pathsEqual_refl by blast

text \<open>
  The theorem at the sample playlist: removing the album's root leaves the single;
  removing a path of another kind still clears the current position.
\<close>

theorem remove_root_item_witness:
  "remove (\<lambda>p. p) (\<lambda>s. None) at_first 0 album
     = Inr \<lparr>playlistItems = [single_item], playlistCurrent = None\<rparr>
   \<and> (\<exists>st'. remove (\<lambda>p. p) (\<lambda>s. None) at_first 1 (album @ [KStr ''B''])  = Inr st'
         \<and> playlistCurrent st' = None)"
proof -
  have a: "(0::int) \<le> 0" "(0::int) < int (length (playlistItems at_first))"
    "(0::int) \<le> 1" "(1::int) < int (length (playlistItems at_first))"
    by (simp_all add: at_first_def two_items_def)
  have r: "album = root (playlistItems at_first ! nat 0)"
    by (simp add: at_first_def two_items_def album_item_def)
  have "remove (\<lambda>p. p) (\<lambda>s. None) at_first 0 album
     = Inr (at_first\<lparr>playlistItems := take (nat 0) (playlistItems at_first)
                                  @ drop (Suc (nat 0)) (playlistItems at_first),
               playlistCurrent := None\<rparr>)"
    using remove_root_item[OF a(1,2), of "\<lambda>p. p" "\<lambda>s. None" album] r by blast
  moreover have "\<exists>st'. remove (\<lambda>p. p) (\<lambda>s. None) at_first 1 (album @ [KStr ''B''])  = Inr st'
         \<and> playlistCurrent st' = None"
    using remove_root_item[OF a(3,4), of "\<lambda>p. p" "\<lambda>s. None" "album @ [KStr ''B'']"] by blast
  ultimately show ?thesis
    by (simp add: at_first_def two_items_def)
qed

text \<open>
  The loop of \<open>_removeTracks\<close> keeps exactly the entries of which \<open>path\<close> is not a
  prefix, in their order.
\<close>

lemma splice_filter_aux: "i < length xs \<Longrightarrow> js_splice1 (int i) xs = take i xs @ drop (Suc i) xs"
  by (simp add: js_splice1_def min_def)

lemma removeTracks_from_filter:
  "i \<le> length trks \<Longrightarrow>
   removeTracks_from toNumber i trks p
     = take i trks @ filter (\<lambda>t. \<not> isPathPrefix toNumber t p) (drop i trks)"
proof (induction toNumber i trks p rule: removeTracks_from.induct)
  case (1 toNumber i trks p)
  show ?case
  proof (cases "i < length trks")
    case False
    then show ?thesis using "1.prems" by (subst removeTracks_from.simps) simp
  next
    case True
    then have d: "drop i trks = trks ! i # drop (Suc i) trks"
      by (simp add: Cons_nth_drop_Suc)
    show ?thesis
    proof (cases "isPathPrefix toNumber (trks ! i) p")
      case pre: True
      have "removeTracks_from toNumber i trks p
          = removeTracks_from toNumber i (js_splice1 (int i) trks) p"
        using True pre by (subst removeTracks_from.simps) simp
      also have "\<dots> = take i (js_splice1 (int i) trks)
           @ filter (\<lambda>t. \<not> isPathPrefix toNumber t p) (drop i (js_splice1 (int i) trks))"
        using "1.IH"(1)[OF True pre] True by (simp add: splice_filter_aux)
      finally show ?thesis using True pre d by (simp add: splice_filter_aux)
    next
      case npre: False
      have "removeTracks_from toNumber i trks p = removeTracks_from toNumber (Suc i) trks p"
        using True npre by (subst removeTracks_from.simps) simp
      also have "\<dots> = take (Suc i) trks
           @ filter (\<lambda>t. \<not> isPathPrefix toNumber t p) (drop (Suc i) trks)"
        using "1.IH"(2)[OF True npre] True by simp
      finally show ?thesis using True npre d by (simp add: take_Suc_conv_app_nth)
    qed
  qed
qed

lemma removeTracks_filter:
  "removeTracks toNumber trks p = filter (\<lambda>t. \<not> isPathPrefix toNumber t p) trks"
  by (simp add: removeTracks_def removeTracks_from_filter)

lemmas loop_simps = remove_loop.simps removeTracks_from.simps removePaths_from.simps
  isPathPrefix_from.simps

text \<open>
  REMOVE with the path of group \<open>A\<close> written relative to the item's root: the tracks
  and the visited path of \<open>A\<close> go, but \<open>data\<close> is looked up under the key of the
  relative path, so the entry of \<open>A\<close> and the root's child list \<open>[A, B]\<close> stay.
\<close>

lemma remove_relative_path:
  "remove (\<lambda>p. p) toNumber at_first 0 [KStr ''A'']
     = Inr \<lparr>playlistItems =
              [album_item\<lparr>paths := [[], [KStr ''B'']], tracks := [[KStr ''B'', KNum 0]]\<rparr>,
               single_item],
            playlistCurrent = None\<rparr>"
proof -
  have l: "remove_loop (\<lambda>p. p) toNumber album_item [KStr ''A'']
      = Some (album_item\<lparr>paths := [[], [KStr ''B'']], tracks := [[KStr ''B'', KNum 0]]\<rparr>)"
    by (simp add: loop_simps pathsEqual_def isPathPrefix_def removeTracks_def removePaths_def
        js_pop_def js_splice1_def indexOf_def album_item_def album_def Let_def)
  show ?thesis
    by (simp add: remove_def at_first_def two_items_def js_index_def l setPlaylistItems_def
        setPlaylistCurrent_def)
qed

text \<open>
  C3 does not hold of the code. \<open>buildPlaylistItem\<close> stores \<open>tracks\<close> and \<open>paths\<close>
  relative to the item's root, and keys \<open>data\<close> by the full path; \<open>remove\<close> compares
  its path with the root and looks \<open>data\<close> up by it, so the path is a full one, yet it
  tests the same path as a prefix of the relative entries. REMOVE of the album's
  group \<open>A\<close> by its full path therefore deletes none of the tracks of \<open>A\<close>, none of
  the visited paths and not the \<open>data\<close> entry of \<open>A\<close>; it only takes \<open>A\<close> out of the
  root's child list.
\<close>

theorem remove_group_keeps_its_tracks:
  "remove (\<lambda>p. p) toNumber at_first 0 (album @ [KStr ''A''])
     = Inr \<lparr>playlistItems =
              [album_item\<lparr>data := (data album_item)
                 (album \<mapsto> \<lparr>type_of = Some TYPE_GROUP, keys = Some [KStr ''B'']\<rparr>)\<rparr>,
               single_item],
            playlistCurrent = None\<rparr>
   \<and> tracks album_item = [[KStr ''A'', KNum 0], [KStr ''A'', KNum 1], [KStr ''B'', KNum 0]]
   \<and> paths album_item = [[], [KStr ''A''], [KStr ''B'']]
   \<and> data album_item (album @ [KStr ''A''])
       = Some \<lparr>type_of = Some TYPE_TRACKS, keys = Some [KNum 0, KNum 1]\<rparr>
   \<and> remove (\<lambda>p. p) toNumber at_first 0 [KStr ''A'']
       = Inr \<lparr>playlistItems =
                [album_item\<lparr>paths := [[], [KStr ''B'']], tracks := [[KStr ''B'', KNum 0]]\<rparr>,
                 single_item],
              playlistCurrent = None\<rparr>"
proof -
  have l: "remove_loop (\<lambda>p. p) toNumber album_item (album @ [KStr ''A''])
      = Some (album_item\<lparr>data := (data album_item)
                 (album \<mapsto> \<lparr>type_of = Some TYPE_GROUP, keys = Some [KStr ''B'']\<rparr>)\<rparr>)"
    by (simp add: loop_simps pathsEqual_def isPathPrefix_def removeTracks_def removePaths_def
        js_pop_def js_splice1_def indexOf_def album_item_def album_def Let_def)
  have "remove (\<lambda>p. p) toNumber at_first 0 (album @ [KStr ''A''])
     = Inr \<lparr>playlistItems =
              [album_item\<lparr>data := (data album_item)
                 (album \<mapsto> \<lparr>type_of = Some TYPE_GROUP, keys = Some [KStr ''B'']\<rparr>)\<rparr>,
               single_item],
            playlistCurrent = None\<rparr>"
    by (simp add: remove_def at_first_def two_items_def js_index_def l setPlaylistItems_def
        setPlaylistCurrent_def)
  then show ?thesis
    by (simp add: remove_relative_path) (simp add: album_item_def)
qed

subsection \<open>PLAY_ITEM\<close>

lemma findTrack_absent:
  "\<forall>t \<in> set ts. pathToKey (r @ t) \<noteq> k \<Longrightarrow> findTrack pathToKey r k ts i = - 1"
  by (induction ts arbitrary: i) simp_all

lemma findTrack_first:
  "j < length ts \<Longrightarrow> pathToKey (r @ ts ! j) = k \<Longrightarrow>
   \<forall>j' < j. pathToKey (r @ ts ! j') \<noteq> k \<Longrightarrow>
   findTrack pathToKey r k ts i = i + int j"
proof (induction ts arbitrary: i j)
  case Nil
  then show ?case by simp
next
  case (Cons t ts)
  show ?case
  proof (cases j)
    case 0
    then show ?thesis using Cons.prems by simp
  next
    case (Suc m)
    have "pathToKey (r @ t) \<noteq> k" using Cons.prems(3) Suc by auto
    moreover have "findTrack pathToKey r k ts (i + 1) = i + 1 + int m"
      using Cons.prems Suc by (intro Cons.IH) auto
    ultimately show ?thesis using Suc by simp
  qed
qed

text \<open>
  On a match \<open>setCurrent\<close> sets the current position to the first matching track and
  reports nothing; without a match it reports the error and still stores a position,
  with track \<open>-1\<close>.
\<close>

lemma setCurrent_found:
  assumes "getPlaylistItem st i = Some it" and "j < length (tracks it)"
    and "pathToKey (root it @ tracks it ! j) = pathToKey p"
    and "\<forall>j' < j. pathToKey (root it @ tracks it ! j') \<noteq> pathToKey p"
  shows "setCurrent pathToKey st i p
     = Inr (False, st\<lparr>playlistCurrent := Some \<lparr>item = i, track = int j, path = Some p\<rparr>\<rparr>)"
  using assms findTrack_first[of j "tracks it" pathToKey "root it" "pathToKey p" 0]
  by (simp add: setCurrent_def setPlaylistCurrent_def)

lemma setCurrent_absent:
  assumes "getPlaylistItem st i = Some it"
    and "\<forall>t \<in> set (tracks it). pathToKey (root it @ t) \<noteq> pathToKey p"
  shows "setCurrent pathToKey st i p
     = Inr (True, st\<lparr>playlistCurrent := Some \<lparr>item = i, track = - 1, path = Some p\<rparr>\<rparr>)"
  using assms by (simp add: setCurrent_def setPlaylistCurrent_def findTrack_absent)

text \<open>
  C5 does not hold of the code. PLAY_ITEM on item 1 (the single) with the path of a
  track of item 0, which is not a track of item 1: the error is reported, but the
  current position, item 0 track 0 before the call, is item 1 track \<open>-1\<close> after it.
\<close>

theorem setCurrent_absent_path_moves_current:
  "setCurrent (\<lambda>p. p) at_first 1 (album @ [KStr ''A'', KNum 0])
     = Inr (True, two_items\<lparr>playlistCurrent :=
              Some \<lparr>item = 1, track = - 1, path = Some (album @ [KStr ''A'', KNum 0])\<rparr>\<rparr>)
   \<and> playlistCurrent at_first = Some \<lparr>item = 0, track = 0, path = Some [KStr ''A'', KNum 0]\<rparr>
   \<and> tracks single_item = [[KNum 0]] \<and> root single_item = single"
  by (simp add: setCurrent_def getPlaylistItem_def js_index_def at_first_def two_items_def
      setPlaylistCurrent_def single_item_def single_def album_def)

subsection \<open>Expansion\<close>

text \<open>
  One turn of the loop visits the head of the queue: its children go to the end of
  the queue, its tracks to the end of the track list.
\<close>

lemma buildLoop_step:
  assumes "getCollection (rt @ p) \<noteq> None"
  shows "buildLoop getCollection pathToKey rt (p # q) trks d ps
     = buildLoop getCollection pathToKey rt (q @ child_paths getCollection rt p)
         (trks @ leaf_tracks getCollection rt p)
         (d(pathToKey (rt @ p) \<mapsto> recorded getCollection rt p))
         (ps @ [p])"
  using assms
  by (subst buildLoop.simps)
     (auto simp: child_paths_def leaf_tracks_def recorded_def split: option.splits)

lemma buildLoop_front:
  assumes "\<forall>p \<in> set first. getCollection (rt @ p) \<noteq> None"
  shows "buildLoop getCollection pathToKey rt (first @ later) trks d ps
     = buildLoop getCollection pathToKey rt
         (later @ concat (map (child_paths getCollection rt) first))
         (trks @ concat (map (leaf_tracks getCollection rt) first))
         (record_all getCollection pathToKey rt d first)
         (ps @ first)"
  using assms
proof (induction first arbitrary: later trks d ps)
  case Nil
  then show ?case by (simp add: record_all_def)
next
  case (Cons p first)
  have "buildLoop getCollection pathToKey rt ((p # first) @ later) trks d ps
      = buildLoop getCollection pathToKey rt (first @ (later @ child_paths getCollection rt p))
         (trks @ leaf_tracks getCollection rt p)
         (d(pathToKey (rt @ p) \<mapsto> recorded getCollection rt p))
         (ps @ [p])"
    using Cons.prems by (simp add: buildLoop_step)
  also have "\<dots> = buildLoop getCollection pathToKey rt
         ((later @ child_paths getCollection rt p)
            @ concat (map (child_paths getCollection rt) first))
         ((trks @ leaf_tracks getCollection rt p)
            @ concat (map (leaf_tracks getCollection rt) first))
         (record_all getCollection pathToKey rt
            (d(pathToKey (rt @ p) \<mapsto> recorded getCollection rt p)) first)
         ((ps @ [p]) @ first)"
    using Cons.prems by (intro Cons.IH) simp
  finally show ?case by (simp add: record_all_def)
qed

lemma buildLoop_levels:
  assumes "level getCollection rt h = []"
    and "\<forall>n < h. \<forall>p \<in> set (level getCollection rt n). getCollection (rt @ p) \<noteq> None"
    and "n \<le> h" and "m = h - n"
  shows "buildLoop getCollection pathToKey rt (level getCollection rt n) trks d ps
     = Some (Inr \<lparr>root = rt,
                  paths = ps @ concat (map (level getCollection rt) [n..<h]),
                  data = record_all getCollection pathToKey rt d
                           (concat (map (level getCollection rt) [n..<h])),
                  tracks = trks @ concat (map (leaf_tracks getCollection rt)
                                      (concat (map (level getCollection rt) [n..<h])))\<rparr>)"
  using assms(3,4)
proof (induction m arbitrary: n trks d ps)
  case 0
  then have "n = h" by simp
  then show ?case
    using assms(1) by (subst buildLoop.simps) (simp add: record_all_def)
next
  case (Suc m)
  then have lt: "n < h" by simp
  have def: "\<forall>p \<in> set (level getCollection rt n). getCollection (rt @ p) \<noteq> None"
    using assms(2) lt by blast
  have "buildLoop getCollection pathToKey rt (level getCollection rt n @ []) trks d ps
      = buildLoop getCollection pathToKey rt
         ([] @ concat (map (child_paths getCollection rt) (level getCollection rt n)))
         (trks @ concat (map (leaf_tracks getCollection rt) (level getCollection rt n)))
         (record_all getCollection pathToKey rt d (level getCollection rt n))
         (ps @ level getCollection rt n)"
    using def by (rule buildLoop_front)
  then have "buildLoop getCollection pathToKey rt (level getCollection rt n) trks d ps
      = buildLoop getCollection pathToKey rt (level getCollection rt (Suc n))
         (trks @ concat (map (leaf_tracks getCollection rt) (level getCollection rt n)))
         (record_all getCollection pathToKey rt d (level getCollection rt n))
         (ps @ level getCollection rt n)"
    by simp
  also have "\<dots> = Some (Inr \<lparr>root = rt,
        paths = (ps @ level getCollection rt n)
                  @ concat (map (level getCollection rt) [Suc n..<h]),
        data = record_all getCollection pathToKey rt
                 (record_all getCollection pathToKey rt d (level getCollection rt n))
                 (concat (map (level getCollection rt) [Suc n..<h])),
        tracks = (trks @ concat (map (leaf_tracks getCollection rt) (level getCollection rt n)))
                   @ concat (map (leaf_tracks getCollection rt)
                       (concat (map (level getCollection rt) [Suc n..<h])))\<rparr>)"
    using Suc.prems lt by (intro Suc.IH) simp_all
  finally show ?case
    using lt by (simp add: upt_conv_Cons record_all_def)
qed

lemma expansion_by_levels:
  assumes "level getCollection rt h = []"
    and "\<forall>n < h. \<forall>p \<in> set (level getCollection rt n). getCollection (rt @ p) \<noteq> None"
  shows "buildPlaylistItem getCollection pathToKey rt
     = Some (Inr \<lparr>root = rt,
                  paths = breadth_first getCollection rt h,
                  data = record_all getCollection pathToKey rt Map.empty
                           (breadth_first getCollection rt h),
                  tracks = concat (map (leaf_tracks getCollection rt)
                                     (breadth_first getCollection rt h))\<rparr>)"
  using buildLoop_levels[OF assms, of 0 h pathToKey "[]" Map.empty "[]"]
  by (simp add: buildPlaylistItem_def breadth_first_def)


lemma expansion_two_groups:
  assumes "getCollection rt = Some c0" and "Groups c0 = Some [a, b]"
    and "getCollection (rt @ [a]) = Some ca" and "Groups ca = None" and "Tracks ca = Some [x0, x1]"
    and "getCollection (rt @ [b]) = Some cb" and "Groups cb = None" and "Tracks cb = Some [y0]"
  shows "buildPlaylistItem getCollection pathToKey rt
     = Some (Inr \<lparr>root = rt,
                  paths = [[], [a], [b]],
                  data = [pathToKey rt \<mapsto> \<lparr>type_of = Some TYPE_GROUP, keys = Some [a, b]\<rparr>,
                          pathToKey (rt @ [a]) \<mapsto>
                            \<lparr>type_of = Some TYPE_TRACKS, keys = Some [KNum 0, KNum 1]\<rparr>,
                          pathToKey (rt @ [b]) \<mapsto>
                            \<lparr>type_of = Some TYPE_TRACKS, keys = Some [KNum 0]\<rparr>],
                  tracks = [[a, KNum 0], [a, KNum 1], [b, KNum 0]]\<rparr>)"
proof -
  have "buildPlaylistItem getCollection pathToKey rt
      = buildLoop getCollection pathToKey rt [[a], [b]] []
          [pathToKey rt \<mapsto> \<lparr>type_of = Some TYPE_GROUP, keys = Some [a, b]\<rparr>] [[]]"
    unfolding buildPlaylistItem_def
    by (subst buildLoop.simps) (simp add: assms)
  also have "\<dots> = buildLoop getCollection pathToKey rt [[b]] [[a, KNum 0], [a, KNum 1]]
          [pathToKey rt \<mapsto> \<lparr>type_of = Some TYPE_GROUP, keys = Some [a, b]\<rparr>,
           pathToKey (rt @ [a]) \<mapsto> \<lparr>type_of = Some TYPE_TRACKS, keys = Some [KNum 0, KNum 1]\<rparr>]
          [[], [a]]"
    by (subst buildLoop.simps) (simp add: assms upt_conv_Cons)
  also have "\<dots> = buildLoop getCollection pathToKey rt []
          [[a, KNum 0], [a, KNum 1], [b, KNum 0]]
          [pathToKey rt \<mapsto> \<lparr>type_of = Some TYPE_GROUP, keys = Some [a, b]\<rparr>,
           pathToKey (rt @ [a]) \<mapsto> \<lparr>type_of = Some TYPE_TRACKS, keys = Some [KNum 0, KNum 1]\<rparr>,
           pathToKey (rt @ [b]) \<mapsto> \<lparr>type_of = Some TYPE_TRACKS, keys = Some [KNum 0]\<rparr>]
          [[], [a], [b]]"
    by (subst buildLoop.simps) (simp add: assms)
  finally show ?thesis
    by (subst (asm) buildLoop.simps) simp
qed

lemma deep_levels:
  "level deep_catalog box 0 = [[]]"
  "level deep_catalog box (Suc 0) = [[KStr ''D''], [KStr ''F'']]"
  "level deep_catalog box (Suc (Suc 0)) = [[KStr ''D'', KStr ''E'']]"
  "level deep_catalog box (Suc (Suc (Suc 0))) = []"
proof -
  show "level deep_catalog box 0 = [[]]" by simp
  show l1: "level deep_catalog box (Suc 0) = [[KStr ''D''], [KStr ''F'']]"
    by (simp add: child_paths_def deep_catalog_def)
  show l2: "level deep_catalog box (Suc (Suc 0)) = [[KStr ''D'', KStr ''E'']]"
    unfolding level.simps(2)[of _ _ "Suc 0"] l1
    by (simp add: child_paths_def deep_catalog_def box_def)
  show "level deep_catalog box (Suc (Suc (Suc 0))) = []"
    unfolding level.simps(2)[of _ _ "Suc (Suc 0)"] l2
    by (simp add: child_paths_def deep_catalog_def box_def)
qed

lemma deep_breadth_first:
  "breadth_first deep_catalog box (Suc (Suc (Suc 0)))
     = [[], [KStr ''D''], [KStr ''F''], [KStr ''D'', KStr ''E'']]"
  unfolding breadth_first_def
  by (simp only: upt_Suc upt_0 list.map map_append concat.simps concat_append deep_levels
      if_True le0 append.simps)


lemma deep_recorded:
  "recorded deep_catalog box [] = \<lparr>type_of = Some TYPE_GROUP, keys = Some [KStr ''D'', KStr ''F'']\<rparr>"
  "recorded deep_catalog box [KStr ''D''] = \<lparr>type_of = Some TYPE_GROUP, keys = Some [KStr ''E'']\<rparr>"
  "recorded deep_catalog box [KStr ''F''] = \<lparr>type_of = Some TYPE_TRACKS, keys = Some [KNum 0]\<rparr>"
  "recorded deep_catalog box [KStr ''D'', KStr ''E'']
     = \<lparr>type_of = Some TYPE_TRACKS, keys = Some [KNum 0]\<rparr>"
  by (simp_all add: recorded_def deep_catalog_def box_def)

lemma deep_leaf_tracks:
  "leaf_tracks deep_catalog box [] = []"
  "leaf_tracks deep_catalog box [KStr ''D''] = []"
  "leaf_tracks deep_catalog box [KStr ''F''] = [[KStr ''F'', KNum 0]]"
  "leaf_tracks deep_catalog box [KStr ''D'', KStr ''E''] = [[KStr ''D'', KStr ''E'', KNum 0]]"
  by (simp_all add: leaf_tracks_def deep_catalog_def box_def)

text \<open>
  C6, as the code has it. When the catalog below the root has finite depth (no Path at
  depth \<open>h\<close>) and every visited Path has a collection, the expansion returns, and
  it has visited the Paths in breadth-first order: level after level, each level from
  left to right in the order of the parents' child-Key lists. It has recorded for
  each visited Path its ordered child-Key list or its track indices, and the flat
  track list holds the tracks of the leaves in the order the leaves were visited.
  So a root with children \<open>a\<close> (two tracks) and \<open>b\<close> (one track) yields the visited
  Paths \<open>[[], [a], [b]]\<close> and the flat track list \<open>[[a, 0], [a, 1], [b, 0]]\<close>: each
  Path is relative to the root, whose own Keys are not part of it.
\<close>

theorem buildPlaylistItem_breadth_first:
  "(level getCollection rt h = []
      \<and> (\<forall>n < h. \<forall>p \<in> set (level getCollection rt n). getCollection (rt @ p) \<noteq> None)
    \<longrightarrow> buildPlaylistItem getCollection pathToKey rt
          = Some (Inr \<lparr>root = rt,
                       paths = breadth_first getCollection rt h,
                       data = record_all getCollection pathToKey rt Map.empty
                                (breadth_first getCollection rt h),
                       tracks = concat (map (leaf_tracks getCollection rt)
                                          (breadth_first getCollection rt h))\<rparr>))
   \<and> (getCollection rt = Some c0 \<and> Groups c0 = Some [a, b]
      \<and> getCollection (rt @ [a]) = Some ca \<and> Groups ca = None \<and> Tracks ca = Some [x0, x1]
      \<and> getCollection (rt @ [b]) = Some cb \<and> Groups cb = None \<and> Tracks cb = Some [y0]
    \<longrightarrow> buildPlaylistItem getCollection pathToKey rt
          = Some (Inr \<lparr>root = rt,
                       paths = [[], [a], [b]],
                       data = [pathToKey rt \<mapsto> \<lparr>type_of = Some TYPE_GROUP, keys = Some [a, b]\<rparr>,
                               pathToKey (rt @ [a]) \<mapsto>
                                 \<lparr>type_of = Some TYPE_TRACKS, keys = Some [KNum 0, KNum 1]\<rparr>,
                               pathToKey (rt @ [b]) \<mapsto>
                                 \<lparr>type_of = Some TYPE_TRACKS, keys = Some [KNum 0]\<rparr>],
                       tracks = [[a, KNum 0], [a, KNum 1], [b, KNum 0]]\<rparr>))"
  apply (intro conjI impI)
  subgoal by (elim conjE) (rule expansion_by_levels)
  subgoal by (elim conjE) (rule expansion_two_groups)
  done

text \<open>
  The theorem at the box, where breadth first and depth first differ (the track of
  \<open>F\<close> comes before the track of \<open>E\<close>, which lies deeper), and at the album.
\<close>

theorem buildPlaylistItem_breadth_first_witness:
  "buildPlaylistItem deep_catalog (\<lambda>p. p) box
     = Some (Inr \<lparr>root = box,
                  paths = [[], [KStr ''D''], [KStr ''F''], [KStr ''D'', KStr ''E'']],
                  data = [box \<mapsto> \<lparr>type_of = Some TYPE_GROUP, keys = Some [KStr ''D'', KStr ''F'']\<rparr>,
                          box @ [KStr ''D''] \<mapsto>
                            \<lparr>type_of = Some TYPE_GROUP, keys = Some [KStr ''E'']\<rparr>,
                          box @ [KStr ''F''] \<mapsto>
                            \<lparr>type_of = Some TYPE_TRACKS, keys = Some [KNum 0]\<rparr>,
                          box @ [KStr ''D'', KStr ''E''] \<mapsto>
                            \<lparr>type_of = Some TYPE_TRACKS, keys = Some [KNum 0]\<rparr>],
                  tracks = [[KStr ''F'', KNum 0], [KStr ''D'', KStr ''E'', KNum 0]]\<rparr>)
   \<and> buildPlaylistItem sample_catalog (\<lambda>p. p) album = Some (Inr album_item)"
proof -
  let ?h = "Suc (Suc (Suc 0))"
  have l: "level deep_catalog box ?h = []" by (rule deep_levels)
  have d: "\<forall>n < ?h. \<forall>p \<in> set (level deep_catalog box n). deep_catalog (box @ p) \<noteq> None"
    unfolding All_less_Suc deep_levels by (simp add: deep_catalog_def)
  have "buildPlaylistItem deep_catalog (\<lambda>p. p) box
          = Some (Inr \<lparr>root = box,
                       paths = breadth_first deep_catalog box ?h,
                       data = record_all deep_catalog (\<lambda>p. p) box Map.empty
                                (breadth_first deep_catalog box ?h),
                       tracks = concat (map (leaf_tracks deep_catalog box)
                                          (breadth_first deep_catalog box ?h))\<rparr>)"
    using buildPlaylistItem_breadth_first[of deep_catalog box ?h "\<lambda>p. p"] l d by blast
  then have deep: "buildPlaylistItem deep_catalog (\<lambda>p. p) box
     = Some (Inr \<lparr>root = box,
                  paths = [[], [KStr ''D''], [KStr ''F''], [KStr ''D'', KStr ''E'']],
                  data = [box \<mapsto> \<lparr>type_of = Some TYPE_GROUP, keys = Some [KStr ''D'', KStr ''F'']\<rparr>,
                          box @ [KStr ''D''] \<mapsto>
                            \<lparr>type_of = Some TYPE_GROUP, keys = Some [KStr ''E'']\<rparr>,
                          box @ [KStr ''F''] \<mapsto>
                            \<lparr>type_of = Some TYPE_TRACKS, keys = Some [KNum 0]\<rparr>,
                          box @ [KStr ''D'', KStr ''E''] \<mapsto>
                            \<lparr>type_of = Some TYPE_TRACKS, keys = Some [KNum 0]\<rparr>],
                  tracks = [[KStr ''F'', KNum 0], [KStr ''D'', KStr ''E'', KNum 0]]\<rparr>)"
    unfolding deep_breadth_first
    by (simp add: record_all_def deep_recorded deep_leaf_tracks)
  have c: "sample_catalog album = Some \<lparr>Groups = Some [KStr ''A'', KStr ''B''], Tracks = None\<rparr>"
    "sample_catalog (album @ [KStr ''A'']) = Some \<lparr>Groups = None, Tracks = Some [(), ()]\<rparr>"
    "sample_catalog (album @ [KStr ''B'']) = Some \<lparr>Groups = None, Tracks = Some [()]\<rparr>"
    by (simp_all add: sample_catalog_def album_def)
  have "buildPlaylistItem sample_catalog (\<lambda>p. p) album
          = Some (Inr \<lparr>root = album,
                       paths = [[], [KStr ''A''], [KStr ''B'']],
                       data = [album \<mapsto> \<lparr>type_of = Some TYPE_GROUP,
                                           keys = Some [KStr ''A'', KStr ''B'']\<rparr>,
                               album @ [KStr ''A''] \<mapsto>
                                 \<lparr>type_of = Some TYPE_TRACKS, keys = Some [KNum 0, KNum 1]\<rparr>,
                               album @ [KStr ''B''] \<mapsto>
                                 \<lparr>type_of = Some TYPE_TRACKS, keys = Some [KNum 0]\<rparr>],
                       tracks = [[KStr ''A'', KNum 0], [KStr ''A'', KNum 1],
                                 [KStr ''B'', KNum 0]]\<rparr>)"
    using buildPlaylistItem_breadth_first[of sample_catalog album _ "\<lambda>p. p"
        "\<lparr>Groups = Some [KStr ''A'', KStr ''B''], Tracks = None\<rparr>" "KStr ''A''" "KStr ''B''"
        "\<lparr>Groups = None, Tracks = Some [(), ()]\<rparr>" "()" "()"
        "\<lparr>Groups = None, Tracks = Some [()]\<rparr>" "()"] c
    by simp
  then show ?thesis using deep by (simp add: album_item_def)
qed

text \<open>
  The claimed list \<open>[[root, A, 0], [root, A, 1], [root, B, 0]]\<close> is not what the code
  returns for the album.
\<close>

theorem buildPlaylistItem_counterexample:
  "buildPlaylistItem sample_catalog (\<lambda>p. p) album = Some (Inr album_item)
   \<and> tracks album_item = [[KStr ''A'', KNum 0], [KStr ''A'', KNum 1], [KStr ''B'', KNum 0]]
   \<and> tracks album_item
       \<noteq> [album @ [KStr ''A'', KNum 0], album @ [KStr ''A'', KNum 1], album @ [KStr ''B'', KNum 0]]"
  by (simp add: build_album_item) (simp add: album_item_def album_def)

section \<open>Properties of the websocket handler\<close>

subsection \<open>The comparison of search results\<close>

lemma same_loop_ok:
  assumes "length ps = length qs"
    and "\<forall>p \<in> set ps. 2 \<le> length p" and "\<forall>q \<in> set qs. 2 \<le> length q"
  shows "same_loop ps qs = Inr (\<forall>i < length ps. ps ! i ! 1 = qs ! i ! 1)"
  using assms
proof (induction ps qs rule: list_induct2)
  case Nil
  then show ?case by simp
next
  case (Cons p ps q qs)
  then show ?case by (auto simp: All_less_Suc2)
qed

lemma same_loop_panic_iff:
  assumes "length ps = length qs"
  shows "(same_loop ps qs = Inl IndexOutOfRange) \<longleftrightarrow>
     (\<exists>i < length ps.
        (\<forall>j < i. 2 \<le> length (ps ! j) \<and> 2 \<le> length (qs ! j) \<and> ps ! j ! 1 = qs ! j ! 1)
        \<and> (length (ps ! i) < 2 \<or> length (qs ! i) < 2))"
  using assms
proof (induction ps qs rule: list_induct2)
  case Nil
  then show ?case by simp
next
  case (Cons p ps q qs)
  show ?case
    unfolding length_Cons Ex_less_Suc2 All_less_Suc2
    using Cons.IH by auto
qed

lemma Search_stores:
  "Search srch r input = Inr (r', ps) \<Longrightarrow> s_paths r' = srch input \<and> ps = srch input"
  by (auto simp: Search_def Let_def split: if_splits sum.splits)

text \<open>
  C9. \<open>Search\<close> returns, with the new paths stored and \<open>same\<close> telling whether the
  lengths and all second Keys agree, whenever the two lists differ in length or every
  Path of both has at least two Keys. It panics with an index out of range exactly
  when the lists have the same length and, at the first index where the second Keys
  do not both exist and agree, one of the two Paths has fewer than two Keys. One such
  input: the previous result \<open>[[Root, x]]\<close> and the new result \<open>[[Root]]\<close>.
\<close>

theorem Search_index_out_of_range:
  "((length (s_paths r) = length (srch input)
       \<longrightarrow> (\<forall>p \<in> set (s_paths r) \<union> set (srch input). 2 \<le> length p))
     \<longrightarrow> Search srch r input
           = Inr (\<lparr>s_paths = srch input,
                   s_same = (length (s_paths r) = length (srch input)
                             \<and> (\<forall>i < length (srch input).
                                   s_paths r ! i ! 1 = srch input ! i ! 1))\<rparr>,
                  srch input))
   \<and> (Search srch r input = Inl IndexOutOfRange \<longleftrightarrow>
        length (s_paths r) = length (srch input)
        \<and> (\<exists>i < length (srch input).
              (\<forall>j < i. 2 \<le> length (s_paths r ! j) \<and> 2 \<le> length (srch input ! j)
                       \<and> s_paths r ! j ! 1 = srch input ! j ! 1)
              \<and> (length (s_paths r ! i) < 2 \<or> length (srch input ! i) < 2)))
   \<and> Search (\<lambda>s. [[''Root'']]) \<lparr>s_paths = [[''Root'', ''x'']], s_same = False\<rparr> ''a''
        = Inl IndexOutOfRange"
proof (intro conjI impI)
  assume pre: "length (s_paths r) = length (srch input)
       \<longrightarrow> (\<forall>p \<in> set (s_paths r) \<union> set (srch input). 2 \<le> length p)"
  show "Search srch r input
           = Inr (\<lparr>s_paths = srch input,
                   s_same = (length (s_paths r) = length (srch input)
                             \<and> (\<forall>i < length (srch input).
                                   s_paths r ! i ! 1 = srch input ! i ! 1))\<rparr>,
                  srch input)"
  proof (cases "length (s_paths r) = length (srch input)")
    case True
    then have "same_loop (s_paths r) (srch input)
        = Inr (\<forall>i < length (s_paths r). s_paths r ! i ! 1 = srch input ! i ! 1)"
      using pre by (intro same_loop_ok) auto
    then show ?thesis using True by (simp add: Search_def Let_def)
  next
    case False
    then show ?thesis by (simp add: Search_def Let_def)
  qed
next
  show "Search srch r input = Inl IndexOutOfRange \<longleftrightarrow>
        length (s_paths r) = length (srch input)
        \<and> (\<exists>i < length (srch input).
              (\<forall>j < i. 2 \<le> length (s_paths r ! j) \<and> 2 \<le> length (srch input ! j)
                       \<and> s_paths r ! j ! 1 = srch input ! j ! 1)
              \<and> (length (s_paths r ! i) < 2 \<or> length (srch input ! i) < 2))"
  proof (cases "length (s_paths r) = length (srch input)")
    case True
    have "Search srch r input = Inl IndexOutOfRange
        \<longleftrightarrow> same_loop (s_paths r) (srch input) = Inl IndexOutOfRange"
      using True by (simp add: Search_def Let_def split: sum.splits)
    then show ?thesis
      using True same_loop_panic_iff[OF True] by simp
  next
    case False
    then show ?thesis by (simp add: Search_def Let_def)
  qed
next
  show "Search (\<lambda>s. [[''Root'']]) \<lparr>s_paths = [[''Root'', ''x'']], s_same = False\<rparr> ''a''
        = Inl IndexOutOfRange"
    by (simp add: Search_def Let_def)
qed

lemma sample_env_simps:
  "Searcher_Search sample_env ''a'' = [[''Root'', ''x'', ''1''], [''Root'', ''y'']]"
  "Searcher_Search sample_env ''ab'' = [[''Other'', ''x''], [''Root'', ''y'', ''2'']]"
  "Searcher_Search sample_env ''zzz'' = []"
  "Searcher_Search sample_env ''b'' = [[''Root'', ''x'']]"
  "Searcher_Search sample_env ''abc'' = [[''Root'']]"
  "ExpandPaths sample_env ps = ps"
  "Send sample_env r = None"
  by (simp_all add: sample_env_def)

text \<open>The theorem at two searches of the sample connection.\<close>

theorem Search_index_out_of_range_witness:
  "Search (Searcher_Search sample_env)
       \<lparr>s_paths = [[''Root'', ''x'', ''1''], [''Root'', ''y'']], s_same = False\<rparr> ''ab''
     = Inr (\<lparr>s_paths = [[''Other'', ''x''], [''Root'', ''y'', ''2'']], s_same = True\<rparr>,
            [[''Other'', ''x''], [''Root'', ''y'', ''2'']])
   \<and> Search (Searcher_Search sample_env) \<lparr>s_paths = [[''Root'', ''x'']], s_same = False\<rparr> ''abc''
        = Inl IndexOutOfRange"
proof -
  let ?r = "\<lparr>s_paths = [[''Root'', ''x'', ''1''], [''Root'', ''y'']], s_same = False\<rparr>"
  let ?q = "\<lparr>s_paths = [[''Root'', ''x'']], s_same = False\<rparr>"
  have new: "Searcher_Search sample_env ''ab'' = [[''Other'', ''x''], [''Root'', ''y'', ''2'']]"
    "Searcher_Search sample_env ''abc'' = [[''Root'']]"
    by (simp_all add: sample_env_def)
  have pre: "length (s_paths ?r) = length (Searcher_Search sample_env ''ab'')
       \<longrightarrow> (\<forall>p \<in> set (s_paths ?r) \<union> set (Searcher_Search sample_env ''ab''). 2 \<le> length p)"
    by (simp add: new)
  have "Search (Searcher_Search sample_env) ?r ''ab''
      = Inr (\<lparr>s_paths = Searcher_Search sample_env ''ab'',
              s_same = (length (s_paths ?r) = length (Searcher_Search sample_env ''ab'')
                        \<and> (\<forall>i < length (Searcher_Search sample_env ''ab'').
                              s_paths ?r ! i ! 1 = Searcher_Search sample_env ''ab'' ! i ! 1))\<rparr>,
             Searcher_Search sample_env ''ab'')"
    using Search_index_out_of_range[of ?r "Searcher_Search sample_env" "''ab''"] pre by blast
  then have a: "Search (Searcher_Search sample_env) ?r ''ab''
      = Inr (\<lparr>s_paths = [[''Other'', ''x''], [''Root'', ''y'', ''2'']], s_same = True\<rparr>,
            [[''Other'', ''x''], [''Root'', ''y'', ''2'']])"
    by (simp add: new All_less_Suc2 numeral_2_eq_2)
  have "length (s_paths ?q) = length (Searcher_Search sample_env ''abc'')
        \<and> (\<exists>i < length (Searcher_Search sample_env ''abc'').
              (\<forall>j < i. 2 \<le> length (s_paths ?q ! j)
                       \<and> 2 \<le> length (Searcher_Search sample_env ''abc'' ! j)
                       \<and> s_paths ?q ! j ! 1 = Searcher_Search sample_env ''abc'' ! j ! 1)
              \<and> (length (s_paths ?q ! i) < 2
                  \<or> length (Searcher_Search sample_env ''abc'' ! i) < 2))"
    by (simp add: new)
  then have b: "Search (Searcher_Search sample_env) ?q ''abc'' = Inl IndexOutOfRange"
    using Search_index_out_of_range[of ?q "Searcher_Search sample_env" "''abc''"] by blast
  show ?thesis using a b by simp
qed

lemma dispatch_SEARCH: "Action c = ''SEARCH'' \<Longrightarrow> dispatch e h c = search e h c"
  by (simp add: dispatch_def)

lemma Handle_single:
  "dispatch e h c = Inr (h', resp, None) \<Longrightarrow>
   fst (snd (Handle e h [Received c]))
     = (case resp of None \<Rightarrow> [] | Some r \<Rightarrow> if Send e r = None then [r] else [])"
  by (cases resp) (auto split: option.splits)


lemma getString_search_cmd: "getString (search_cmd s) ''input'' = (s, None)"
  by (simp add: getString_def get_def search_cmd_def)

lemma Action_search_cmd: "Action (search_cmd s) = ''SEARCH''"
  by (simp add: search_cmd_def)


subsection \<open>Consecutive searches\<close>

lemma same_loop_compared:
  assumes "length ps = length qs" and "compared_have_second_key ps qs"
  shows "same_loop ps qs = Inr (\<forall>i < length qs. ps ! i ! 1 = qs ! i ! 1)"
  using assms
proof (induction ps qs rule: list_induct2)
  case Nil
  then show ?case by simp
next
  case (Cons p ps q qs)
  note c = Cons.prems[unfolded compared_have_second_key_def, rule_format]
  have two: "2 \<le> length p \<and> 2 \<le> length q"
    using c[of 0] by simp
  show ?case
  proof (cases "p ! 1 = q ! 1")
    case False
    then have "\<not> (\<forall>i < length (q # qs). (p # ps) ! i ! 1 = (q # qs) ! i ! 1)"
      by (intro notI) (drule spec[of _ 0], simp)
    then show ?thesis using two False by simp
  next
    case True
    have "compared_have_second_key ps qs"
      unfolding compared_have_second_key_def
    proof (intro allI impI)
      fix i assume i: "i < length qs"
        and a: "\<forall>j < i. 2 \<le> length (ps ! j) \<and> 2 \<le> length (qs ! j) \<and> ps ! j ! 1 = qs ! j ! 1"
      have "\<And>j. j < Suc i \<Longrightarrow> 2 \<le> length ((p # ps) ! j) \<and> 2 \<le> length ((q # qs) ! j)
                \<and> (p # ps) ! j ! 1 = (q # qs) ! j ! 1"
      proof -
        fix j assume "j < Suc i"
        then show "2 \<le> length ((p # ps) ! j) \<and> 2 \<le> length ((q # qs) ! j)
                \<and> (p # ps) ! j ! 1 = (q # qs) ! j ! 1"
          using two True a by (cases j) simp_all
      qed
      then have "2 \<le> length ((p # ps) ! Suc i) \<and> 2 \<le> length ((q # qs) ! Suc i)"
        using c[of "Suc i"] i by simp
      then show "2 \<le> length (ps ! i) \<and> 2 \<le> length (qs ! i)" by simp
    qed
    then have IH: "same_loop ps qs = Inr (\<forall>i < length qs. ps ! i ! 1 = qs ! i ! 1)"
      by (rule Cons.IH)
    have "(\<forall>i < length (q # qs). (p # ps) ! i ! 1 = (q # qs) ! i ! 1)
        \<longleftrightarrow> (\<forall>i < length qs. ps ! i ! 1 = qs ! i ! 1)"
      unfolding length_Cons All_less_Suc2 using True by simp
    then show ?thesis using two True IH by simp
  qed
qed

lemma same_loop_not_compared:
  assumes "length ps = length qs" and "\<not> compared_have_second_key ps qs"
  shows "same_loop ps qs = Inl IndexOutOfRange"
proof -
  have "\<exists>i < length ps.
        (\<forall>j < i. 2 \<le> length (ps ! j) \<and> 2 \<le> length (qs ! j) \<and> ps ! j ! 1 = qs ! j ! 1)
        \<and> (length (ps ! i) < 2 \<or> length (qs ! i) < 2)"
    using assms unfolding compared_have_second_key_def by (auto simp: not_le)
  then show ?thesis unfolding same_loop_panic_iff[OF assms(1)] .
qed

lemma Search_compared:
  assumes "length (s_paths r) = length (srch input) \<longrightarrow>
           compared_have_second_key (s_paths r) (srch input)"
  shows "Search srch r input
     = Inr (\<lparr>s_paths = srch input,
             s_same = (length (s_paths r) = length (srch input)
                       \<and> (\<forall>i < length (srch input). s_paths r ! i ! 1 = srch input ! i ! 1))\<rparr>,
            srch input)"
proof (cases "length (s_paths r) = length (srch input)")
  case True
  then show ?thesis
    using assms same_loop_compared[OF True] by (simp add: Search_def Let_def)
next
  case False
  then show ?thesis by (simp add: Search_def Let_def)
qed

lemma Search_not_compared:
  assumes "length (s_paths r) = length (srch input)"
    and "\<not> compared_have_second_key (s_paths r) (srch input)"
  shows "Search srch r input = Inl IndexOutOfRange"
  using assms same_loop_not_compared[OF assms] by (simp add: Search_def Let_def)

lemma Handle_panic:
  "dispatch e h c = Inl pn \<Longrightarrow> Handle e h (Received c # evs) = (h, [], Inl pn)"
  by simp

text \<open>
  C7, as the code has it. Two consecutive SEARCH commands, the first of which
  returned: the first call stored its result. The comparison of the second result
  with it reads the second Key of both Paths at every index up to the first
  disagreement, and only when the two lists have the same length. When every Path it
  reads has a second Key (or the lengths differ, and nothing is read), the handler
  returns no Response for the second command exactly when the two lists have the same
  length and agree on the second Key at every index; otherwise the Response carries
  the new result; either way the new result is stored, and the loop sends what the
  handler returns. When the lists have the same length and the comparison reaches a
  Path without a second Key, the second command panics with an index out of range:
  nothing is sent, the loop ends, and the stored result is still that of the first
  command.
\<close>

theorem search_suppression:
  assumes "Action c1 = ''SEARCH''" and "Action c2 = ''SEARCH''"
    and "getString c1 ''input'' = (in1, None)" and "getString c2 ''input'' = (in2, None)"
    and "dispatch e h c1 = Inr (h1, resp1, err1)"
  shows "s_paths (searcher h1) = Searcher_Search e in1
     \<and> ((length (Searcher_Search e in1) = length (Searcher_Search e in2)
           \<longrightarrow> compared_have_second_key (Searcher_Search e in1) (Searcher_Search e in2))
        \<longrightarrow> (\<exists>h2 resp2. dispatch e h1 c2 = Inr (h2, resp2, None)
              \<and> (resp2 = None \<longleftrightarrow>
                   length (Searcher_Search e in1) = length (Searcher_Search e in2)
                   \<and> (\<forall>i < length (Searcher_Search e in2).
                         Searcher_Search e in1 ! i ! 1 = Searcher_Search e in2 ! i ! 1))
              \<and> (resp2 = None
                   \<or> resp2 = Some (Response ''SEARCH'' (ExpandPaths e (Searcher_Search e in2))))
              \<and> s_paths (searcher h2) = Searcher_Search e in2
              \<and> fst (snd (Handle e h1 [Received c2]))
                  = (case resp2 of None \<Rightarrow> []
                     | Some r \<Rightarrow> if Send e r = None then [r] else [])))
     \<and> (length (Searcher_Search e in1) = length (Searcher_Search e in2)
          \<and> \<not> compared_have_second_key (Searcher_Search e in1) (Searcher_Search e in2)
        \<longrightarrow> dispatch e h1 c2 = Inl IndexOutOfRange
            \<and> fst (snd (Handle e h1 (Received c2 # evs))) = []
            \<and> snd (snd (Handle e h1 (Received c2 # evs))) = Inl IndexOutOfRange
            \<and> s_paths (searcher (fst (Handle e h1 (Received c2 # evs))))
                = Searcher_Search e in1)"
proof -
  let ?prev = "Searcher_Search e in1" and ?new = "Searcher_Search e in2"
  have "search e h c1 = Inr (h1, resp1, err1)"
    using assms(1,5) by (simp add: dispatch_SEARCH)
  then obtain r1 ps1 where r1: "Search (Searcher_Search e) (searcher h) in1 = Inr (r1, ps1)"
    and h1: "h1 = h\<lparr>searcher := r1\<rparr>"
    using assms(3) by (auto simp: search_def split: sum.splits if_splits)
  have prev: "s_paths (searcher h1) = ?prev"
    using Search_stores[OF r1] h1 by simp
  have ok: "\<exists>h2 resp2. dispatch e h1 c2 = Inr (h2, resp2, None)
              \<and> (resp2 = None \<longleftrightarrow>
                   length ?prev = length ?new
                   \<and> (\<forall>i < length ?new. ?prev ! i ! 1 = ?new ! i ! 1))
              \<and> (resp2 = None \<or> resp2 = Some (Response ''SEARCH'' (ExpandPaths e ?new)))
              \<and> s_paths (searcher h2) = ?new
              \<and> fst (snd (Handle e h1 [Received c2]))
                  = (case resp2 of None \<Rightarrow> []
                     | Some r \<Rightarrow> if Send e r = None then [r] else [])"
    if pre: "length ?prev = length ?new \<longrightarrow> compared_have_second_key ?prev ?new"
  proof -
    define b where "b \<longleftrightarrow> length ?prev = length ?new
        \<and> (\<forall>i < length ?new. ?prev ! i ! 1 = ?new ! i ! 1)"
    have S: "Search (Searcher_Search e) (searcher h1) in2
        = Inr (\<lparr>s_paths = ?new, s_same = b\<rparr>, ?new)"
      using Search_compared[of "searcher h1" "Searcher_Search e" in2] pre prev
      by (simp add: b_def)
    define resp2 where
      "resp2 = (if b then None else Some (Response ''SEARCH'' (ExpandPaths e ?new)))"
    define h2 where "h2 = h1\<lparr>searcher := \<lparr>s_paths = ?new, s_same = b\<rparr>\<rparr>"
    have D: "dispatch e h1 c2 = Inr (h2, resp2, None)"
      using assms(2,4) S by (simp add: dispatch_SEARCH search_def resp2_def h2_def)
    have "resp2 = None \<longleftrightarrow> b" by (simp add: resp2_def)
    moreover have "resp2 = None \<or> resp2 = Some (Response ''SEARCH'' (ExpandPaths e ?new))"
      by (simp add: resp2_def)
    moreover have "s_paths (searcher h2) = ?new" by (simp add: h2_def)
    ultimately show ?thesis
      using D Handle_single[OF D] unfolding b_def by blast
  qed
  have bad: "dispatch e h1 c2 = Inl IndexOutOfRange
            \<and> fst (snd (Handle e h1 (Received c2 # evs))) = []
            \<and> snd (snd (Handle e h1 (Received c2 # evs))) = Inl IndexOutOfRange
            \<and> s_paths (searcher (fst (Handle e h1 (Received c2 # evs)))) = ?prev"
    if len: "length ?prev = length ?new" and npre: "\<not> compared_have_second_key ?prev ?new"
  proof -
    have "Search (Searcher_Search e) (searcher h1) in2 = Inl IndexOutOfRange"
      using Search_not_compared[of "searcher h1" "Searcher_Search e" in2] len npre prev
      by simp
    then have D: "dispatch e h1 c2 = Inl IndexOutOfRange"
      using assms(2,4) by (simp add: dispatch_SEARCH search_def)
    show ?thesis using D prev by (simp add: Handle_panic[OF D])
  qed
  show ?thesis
    using prev ok bad by blast
qed

lemma dispatch_first_a:
  "dispatch sample_env (new_handler ()) (search_cmd ''a'')
     = Inr (after_a, Some (Response ''SEARCH'' [[''Root'', ''x'', ''1''], [''Root'', ''y'']]), None)"
  by (simp add: dispatch_def search_def getString_search_cmd Action_search_cmd Search_def
      Let_def new_handler_def after_a_def sample_env_simps)

lemma dispatch_first_b:
  "dispatch sample_env (new_handler ()) (search_cmd ''b'')
     = Inr (after_b, Some (Response ''SEARCH'' [[''Root'', ''x'']]), None)"
  by (simp add: dispatch_def search_def getString_search_cmd Action_search_cmd Search_def
      Let_def new_handler_def after_b_def sample_env_simps)

lemma compared_a_ab:
  "compared_have_second_key [[''Root'', ''x'', ''1''], [''Root'', ''y'']]
     [[''Other'', ''x''], [''Root'', ''y'', ''2'']]"
  by (simp add: compared_have_second_key_def All_less_Suc2)

lemma not_compared_b_abc: "\<not> compared_have_second_key [[''Root'', ''x'']] [[''Root'']]"
  by (simp add: compared_have_second_key_def)

text \<open>
  The theorem at the sample connection: after \<open>a\<close>, the search of \<open>ab\<close> agrees on the
  second Keys and nothing is sent; after \<open>b\<close>, the search of \<open>abc\<close> finds a Path of
  one Key and panics.
\<close>

theorem search_suppression_witness:
  "(\<exists>h2. dispatch sample_env after_a (search_cmd ''ab'') = Inr (h2, None, None)
         \<and> s_paths (searcher h2) = [[''Other'', ''x''], [''Root'', ''y'', ''2'']])
   \<and> fst (snd (Handle sample_env after_a [Received (search_cmd ''ab'')])) = []
   \<and> dispatch sample_env after_b (search_cmd ''abc'') = Inl IndexOutOfRange"
proof -
  note new = sample_env_simps
  have a: "Action (search_cmd ''a'') = ''SEARCH''" "Action (search_cmd ''ab'') = ''SEARCH''"
    "Action (search_cmd ''b'') = ''SEARCH''" "Action (search_cmd ''abc'') = ''SEARCH''"
    by (simp_all add: search_cmd_def)
  have p: "length (Searcher_Search sample_env ''a'') = length (Searcher_Search sample_env ''ab'')
      \<longrightarrow> compared_have_second_key (Searcher_Search sample_env ''a'')
            (Searcher_Search sample_env ''ab'')"
    by (simp add: new compared_a_ab)
  obtain h2 resp2 where d: "dispatch sample_env after_a (search_cmd ''ab'') = Inr (h2, resp2, None)"
    and r: "resp2 = None \<longleftrightarrow>
           length (Searcher_Search sample_env ''a'') = length (Searcher_Search sample_env ''ab'')
           \<and> (\<forall>i < length (Searcher_Search sample_env ''ab'').
                 Searcher_Search sample_env ''a'' ! i ! 1 = Searcher_Search sample_env ''ab'' ! i ! 1)"
    and s: "s_paths (searcher h2) = Searcher_Search sample_env ''ab''"
    and l: "fst (snd (Handle sample_env after_a [Received (search_cmd ''ab'')]))
          = (case resp2 of None \<Rightarrow> [] | Some r \<Rightarrow> if Send sample_env r = None then [r] else [])"
    using search_suppression[OF a(1,2) getString_search_cmd getString_search_cmd
        dispatch_first_a, of "[]"] p
    by blast
  have none: "resp2 = None"
    using r by (simp add: new All_less_Suc2)
  have q: "length (Searcher_Search sample_env ''b'') = length (Searcher_Search sample_env ''abc'')
      \<and> \<not> compared_have_second_key (Searcher_Search sample_env ''b'')
            (Searcher_Search sample_env ''abc'')"
    by (simp add: new not_compared_b_abc)
  have "dispatch sample_env after_b (search_cmd ''abc'') = Inl IndexOutOfRange"
    using search_suppression[OF a(3,4) getString_search_cmd getString_search_cmd
        dispatch_first_b, of "[]"] q
    by blast
  then show ?thesis
    using d s l none by (simp add: new)
qed

text \<open>
  The claim fails for the searches of \<open>b\<close> and \<open>abc\<close>: the two results have the same
  length, the second has no second Key to agree with, no Response is sent, and the new
  result is not stored.
\<close>

theorem search_suppression_counterexample:
  "dispatch sample_env (new_handler ()) (search_cmd ''b'')
     = Inr (after_b, Some (Response ''SEARCH'' [[''Root'', ''x'']]), None)
   \<and> s_paths (searcher after_b) = [[''Root'', ''x'']]
   \<and> Searcher_Search sample_env ''abc'' = [[''Root'']]
   \<and> dispatch sample_env after_b (search_cmd ''abc'') = Inl IndexOutOfRange
   \<and> Handle sample_env after_b [Received (search_cmd ''abc'')]
       = (after_b, [], Inl IndexOutOfRange)"
proof -
  have d: "dispatch sample_env after_b (search_cmd ''abc'') = Inl IndexOutOfRange"
    by (simp add: dispatch_def search_def getString_search_cmd Action_search_cmd Search_def
        Let_def after_b_def sample_env_simps)
  show ?thesis
    using d dispatch_first_b by (simp add: sample_env_simps) (simp add: after_b_def)
qed

text \<open>
  C10. On a new handler a first SEARCH whose result is empty is classified as the
  same as the (empty) stored list: the handler returns no Response and no error, and
  the loop goes on to the next command without sending anything.
\<close>

theorem first_empty_search_sends_nothing:
  assumes "Action c = ''SEARCH''" and "getString c ''input'' = (inp, None)"
    and "Searcher_Search e inp = []"
  shows "dispatch e (new_handler m) c
           = Inr (\<lparr>searcher = \<lparr>s_paths = [], s_same = True\<rparr>, meta = m\<rparr>, None, None)
       \<and> Handle e (new_handler m) (Received c # evs)
           = Handle e \<lparr>searcher = \<lparr>s_paths = [], s_same = True\<rparr>, meta = m\<rparr> evs
       \<and> Handle e (new_handler m) [Received c]
           = (\<lparr>searcher = \<lparr>s_paths = [], s_same = True\<rparr>, meta = m\<rparr>, [], Inr EOF)"
proof -
  have d: "dispatch e (new_handler m) c
           = Inr (\<lparr>searcher = \<lparr>s_paths = [], s_same = True\<rparr>, meta = m\<rparr>, None, None)"
    using assms by (simp add: dispatch_def search_def Search_def Let_def new_handler_def)
  then show ?thesis by simp
qed

text \<open>The theorem at the sample connection, whose searcher finds nothing for \<open>zzz\<close>.\<close>

theorem first_empty_search_sends_nothing_witness:
  "dispatch sample_env (new_handler ()) (search_cmd ''zzz'')
           = Inr (\<lparr>searcher = \<lparr>s_paths = [], s_same = True\<rparr>, meta = ()\<rparr>, None, None)
   \<and> Handle sample_env (new_handler ()) [Received (search_cmd ''zzz'')]
           = (\<lparr>searcher = \<lparr>s_paths = [], s_same = True\<rparr>, meta = ()\<rparr>, [], Inr EOF)"
proof -
  have a: "Action (search_cmd ''zzz'') = ''SEARCH''" by (simp add: search_cmd_def)
  have b: "Searcher_Search sample_env ''zzz'' = []" by (simp add: sample_env_def)
  show ?thesis
    using first_empty_search_sends_nothing[OF a getString_search_cmd b] by blast
qed


subsection \<open>Field extraction\<close>


































end
